theory Spec2Isabelle
  imports Complex_Main "HOL-Library.Word" "HOL-Library.Multiset" "HOL-Library.List_Lexorder"
begin

section \<open>gmux: the session model of \<^verbatim>\<open>src/main.c\<close>\<close>

text \<open>
  The development embeds the project/subtab model of gmux, a GTK4 terminal multiplexer.
  C structs are records, the heap is a pair of maps from addresses to structs, \<^verbatim>\<open>NULL\<close>
  is \<open>None\<close>, and every handler is a function from the program state to the program state.
  A dereference of an address that holds no struct (a freed or never allocated object) is
  undefined behaviour in C; the model records it by setting the flag \<open>invalid_deref\<close>.

  The toolkit is modelled only as far as the handlers of \<^verbatim>\<open>main.c\<close> observe it:
  the children of a tab strip (a list), the selected row of the sidebar, the rows of the
  sidebar in display order, the signal connections \<^verbatim>\<open>main.c\<close> makes, the terminals
  spawned, and the session file.
\<close>

subsection \<open>GLib lists\<close>

type_synonym ptr = nat

text \<open>\<^verbatim>\<open>g_list_index\<close>: the position of the first element equal to the data, or -1.\<close>

fun g_list_index_from :: "int \<Rightarrow> 'a list \<Rightarrow> 'a \<Rightarrow> int" where
  "g_list_index_from i [] x = -1"
| "g_list_index_from i (y # ys) x = (if y = x then i else g_list_index_from (i + 1) ys x)"

definition g_list_index :: "'a list \<Rightarrow> 'a \<Rightarrow> int" where
  "g_list_index xs x = g_list_index_from 0 xs x"

text \<open>\<^verbatim>\<open>g_list_nth\<close>: the link at position \<open>n\<close> (a \<^verbatim>\<open>guint\<close>), or \<^verbatim>\<open>NULL\<close>.\<close>

definition g_list_nth :: "'a list \<Rightarrow> nat \<Rightarrow> 'a option" where
  "g_list_nth xs n = (if n < length xs then Some (xs ! n) else None)"

text \<open>The conversion of a \<^verbatim>\<open>gint64\<close> to \<^verbatim>\<open>int\<close> (32 bits, two's complement), and of an
  \<^verbatim>\<open>int\<close> to \<^verbatim>\<open>guint\<close>.\<close>

definition int_of_gint64 :: "int \<Rightarrow> 32 word" where
  "int_of_gint64 v = word_of_int v"

definition guint_of_int :: "32 word \<Rightarrow> nat" where
  "guint_of_int w = unat w"

text \<open>The element after the first occurrence of \<open>x\<close>, else the one before it: what
  \<^verbatim>\<open>link->next ? link->next : link->prev\<close> reads for \<^verbatim>\<open>link = g_list_find (xs, x)\<close>.
  The outer \<open>None\<close> is \<^verbatim>\<open>link == NULL\<close>.\<close>

fun link_neighbour :: "'a option \<Rightarrow> 'a list \<Rightarrow> 'a \<Rightarrow> 'a option option" where
  "link_neighbour prev [] x = None"
| "link_neighbour prev (y # ys) x =
     (if y = x then Some (case ys of z # _ \<Rightarrow> Some z | [] \<Rightarrow> prev)
      else link_neighbour (Some y) ys x)"

subsection \<open>JSON documents as json-glib presents them\<close>

datatype json =
    JNull
  | JBool bool
  | JInt int
  | JString string
  | JArray "json list"
  | JObject "(string \<times> json) list"

text \<open>A member set twice keeps its last value.\<close>

definition json_object_get_member :: "(string \<times> json) list \<Rightarrow> string \<Rightarrow> json option" where
  "json_object_get_member obj k = map_of (rev obj) k"

definition json_object_has_member :: "(string \<times> json) list \<Rightarrow> string \<Rightarrow> bool" where
  "json_object_has_member obj k = (json_object_get_member obj k \<noteq> None)"

text \<open>The typed getters return \<^verbatim>\<open>NULL\<close> or 0 for a missing member and for a node of
  another type.\<close>

definition json_object_get_string_member :: "(string \<times> json) list \<Rightarrow> string \<Rightarrow> string option" where
  "json_object_get_string_member obj k =
     (case json_object_get_member obj k of Some (JString v) \<Rightarrow> Some v | _ \<Rightarrow> None)"

definition json_object_get_int_member :: "(string \<times> json) list \<Rightarrow> string \<Rightarrow> int" where
  "json_object_get_int_member obj k =
     (case json_object_get_member obj k of
        Some (JInt v) \<Rightarrow> v
      | Some (JBool b) \<Rightarrow> (if b then 1 else 0)
      | _ \<Rightarrow> 0)"

definition json_object_get_array_member :: "(string \<times> json) list \<Rightarrow> string \<Rightarrow> json list option" where
  "json_object_get_array_member obj k =
     (case json_object_get_member obj k of Some (JArray a) \<Rightarrow> Some a | _ \<Rightarrow> None)"

text \<open>\<^verbatim>\<open>json_array_get_length\<close> of \<^verbatim>\<open>NULL\<close> is 0, so a loop over a missing array runs
  over no element.\<close>

definition json_array_elements :: "json list option \<Rightarrow> json list" where
  "json_array_elements a = (case a of None \<Rightarrow> [] | Some xs \<Rightarrow> xs)"

definition json_array_get_object_element :: "json \<Rightarrow> (string \<times> json) list option" where
  "json_array_get_object_element e = (case e of JObject obj \<Rightarrow> Some obj | _ \<Rightarrow> None)"

text \<open>What \<^verbatim>\<open>g_file_test\<close> and \<^verbatim>\<open>json_parser_load_from_file\<close> report of
  \<^verbatim>\<open>session.json\<close>: no file, a file the parser rejects, or a parsed document whose
  root may be \<^verbatim>\<open>NULL\<close> (an empty file).\<close>

datatype session_file = No_file | Unparseable | Parsed "json option"

subsection \<open>The structs of \<^verbatim>\<open>main.c\<close>\<close>

datatype SortMode = SORT_NONE | SORT_ALPHA | SORT_MRU

record SavedSubTab =
  saved_name :: string
  working_dir :: string

text \<open>A \<^verbatim>\<open>SubTab\<close>. Its widgets are not modelled as objects of their own: the tab row
  (\<^verbatim>\<open>tab_widget\<close>) is named by the address of the SubTab it carries as \<^verbatim>\<open>"subtab"\<close>
  data. \<open>current_directory\<close> is what the terminal reports through
  \<^verbatim>\<open>vte_terminal_get_current_directory_uri\<close> and \<^verbatim>\<open>g_filename_from_uri\<close>;
  \<open>signals_connected\<close> says whether the terminal's \<^verbatim>\<open>window-title-changed\<close> and
  \<^verbatim>\<open>child-exited\<close> handlers are still connected; \<open>tab_dragging\<close> is the style class
  \<^verbatim>\<open>gmux-tab-dragging\<close> of the tab row.\<close>

record SubTab =
  tab_name :: string
  parent_tab :: ptr
  closing :: bool
  current_directory :: "string option"
  signals_connected :: bool
  tab_dragging :: bool

text \<open>A \<^verbatim>\<open>Project\<close>. \<open>tabs_box\<close> lists the children of the tab strip in strip order;
  \<open>drag_tab\<close>, \<open>drag_active\<close> and \<open>drag_start_x\<close> are the object data the drag handlers
  keep on the strip.\<close>

record Project =
  subtabs :: "ptr list"
  active_subtab :: "ptr option"
  subtab_counter :: int
  name :: string
  path :: string
  initialized :: bool
  last_used :: int
  insert_order :: int
  saved_subtabs :: "SavedSubTab list"
  saved_active_subtab :: "32 word"
  tabs_box :: "ptr list"
  drag_tab :: "ptr option"
  drag_active :: bool
  drag_start_x :: "real option"

text \<open>The program state: the fields of \<^verbatim>\<open>AppState\<close> that the session model uses
  (\<open>projects\<close>, \<open>active_project\<close>, \<open>sort_mode\<close>), the heap (\<open>project_mem\<close>,
  \<open>subtab_mem\<close>, \<open>next_ptr\<close>, \<open>invalid_deref\<close>), the sidebar list box (\<open>sidebar_rows\<close> in
  display order, each row named by the address of its project; \<open>selected_row\<close>;
  \<open>sort_func\<close>), the clock read by \<^verbatim>\<open>g_get_real_time\<close>, the files
  (\<^verbatim>\<open>session.json\<close>, the buffers \<^verbatim>\<open>fgets\<close> yields for \<^verbatim>\<open>projects.conf\<close> and
  \<^verbatim>\<open>sort.conf\<close>), and three logs: the working directory of every
  \<^verbatim>\<open>vte_terminal_spawn_async\<close>, the number of \<^verbatim>\<open>json_generator_to_file\<close> calls, and
  the SubTabs passed to \<^verbatim>\<open>g_free\<close>.\<close>

record AppState =
  projects :: "ptr list"
  active_project :: "ptr option"
  sort_mode :: SortMode
  project_mem :: "ptr \<Rightarrow> Project option"
  subtab_mem :: "ptr \<Rightarrow> SubTab option"
  next_ptr :: ptr
  invalid_deref :: bool
  sidebar_rows :: "ptr list"
  selected_row :: "ptr option"
  sort_func :: "SortMode option"
  real_time :: int
  session_json :: session_file
  legacy_projects :: "string list option"
  sort_conf :: "string option option"
  spawned :: "string list"
  saves :: nat
  freed :: "ptr list"

definition fault :: "AppState \<Rightarrow> AppState" where
  "fault s = s\<lparr>invalid_deref := True\<rparr>"

definition update_project :: "ptr \<Rightarrow> (Project \<Rightarrow> Project) \<Rightarrow> AppState \<Rightarrow> AppState" where
  "update_project project f s =
     (case project_mem s project of
        None \<Rightarrow> fault s
      | Some P \<Rightarrow> s\<lparr>project_mem := (project_mem s)(project \<mapsto> f P)\<rparr>)"

definition update_subtab :: "ptr \<Rightarrow> (SubTab \<Rightarrow> SubTab) \<Rightarrow> AppState \<Rightarrow> AppState" where
  "update_subtab subtab f s =
     (case subtab_mem s subtab of
        None \<Rightarrow> fault s
      | Some S \<Rightarrow> s\<lparr>subtab_mem := (subtab_mem s)(subtab \<mapsto> f S)\<rparr>)"

subsection \<open>Sorting the sidebar\<close>

definition c_str :: "string \<Rightarrow> string" where
  "c_str s = takeWhile (\<lambda>c. c \<noteq> CHR 0x00) s"

definition g_ascii_tolower :: "char \<Rightarrow> nat" where
  "g_ascii_tolower c = (let n = of_char c in if 65 \<le> n \<and> n \<le> 90 then n + 32 else n)"

text \<open>\<^verbatim>\<open>g_ascii_strcasecmp\<close> on the bytes before the terminating NUL: the difference of
  the first two bytes that differ after ASCII lower-casing, a proper prefix being smaller.\<close>

fun strcasecmp_bytes :: "string \<Rightarrow> string \<Rightarrow> int" where
  "strcasecmp_bytes (a # as) (b # bs) =
     (let c1 = int (g_ascii_tolower a); c2 = int (g_ascii_tolower b)
      in if c1 \<noteq> c2 then c1 - c2 else strcasecmp_bytes as bs)"
| "strcasecmp_bytes [] (b # bs) = 0 - int (of_char b)"
| "strcasecmp_bytes (a # as) [] = int (of_char a) - 0"
| "strcasecmp_bytes [] [] = 0"

definition g_ascii_strcasecmp :: "string \<Rightarrow> string \<Rightarrow> int" where
  "g_ascii_strcasecmp s1 s2 = strcasecmp_bytes (c_str s1) (c_str s2)"

text \<open>The three compare callbacks. A row carries its project as \<^verbatim>\<open>"project"\<close> data; a
  row without a project compares equal to every row. \<open>insert_order\<close> is a list length, so
  the difference of two of them does not overflow.\<close>

definition sort_func_insertion :: "AppState \<Rightarrow> ptr \<Rightarrow> ptr \<Rightarrow> int" where
  "sort_func_insertion s row1 row2 =
     (case project_mem s row1 of None \<Rightarrow> 0
      | Some p1 \<Rightarrow> (case project_mem s row2 of None \<Rightarrow> 0
          | Some p2 \<Rightarrow> insert_order p1 - insert_order p2))"

definition sort_func_alpha :: "AppState \<Rightarrow> ptr \<Rightarrow> ptr \<Rightarrow> int" where
  "sort_func_alpha s row1 row2 =
     (case project_mem s row1 of None \<Rightarrow> 0
      | Some p1 \<Rightarrow> (case project_mem s row2 of None \<Rightarrow> 0
          | Some p2 \<Rightarrow> g_ascii_strcasecmp (name p1) (name p2)))"

definition sort_func_mru :: "AppState \<Rightarrow> ptr \<Rightarrow> ptr \<Rightarrow> int" where
  "sort_func_mru s row1 row2 =
     (case project_mem s row1 of None \<Rightarrow> 0
      | Some p1 \<Rightarrow> (case project_mem s row2 of None \<Rightarrow> 0
          | Some p2 \<Rightarrow>
              (if last_used p2 > last_used p1 then 1
               else if last_used p2 < last_used p1 then -1
               else 0)))"

definition sort_callback :: "SortMode \<Rightarrow> AppState \<Rightarrow> ptr \<Rightarrow> ptr \<Rightarrow> int" where
  "sort_callback m =
     (case m of SORT_ALPHA \<Rightarrow> sort_func_alpha | SORT_MRU \<Rightarrow> sort_func_mru
      | SORT_NONE \<Rightarrow> sort_func_insertion)"

text \<open>The list box orders its rows with the callback. Its algorithm is the toolkit's; it
  is modelled by a stable insertion sort: a row goes before the first row that the
  callback puts after it.\<close>

fun insert_sorted :: "('a \<Rightarrow> 'a \<Rightarrow> int) \<Rightarrow> 'a \<Rightarrow> 'a list \<Rightarrow> 'a list" where
  "insert_sorted cmp x [] = [x]"
| "insert_sorted cmp x (y # ys) =
     (if cmp x y < 0 then x # y # ys else y # insert_sorted cmp x ys)"

definition list_box_sort :: "('a \<Rightarrow> 'a \<Rightarrow> int) \<Rightarrow> 'a list \<Rightarrow> 'a list" where
  "list_box_sort cmp rows = foldl (\<lambda>acc r. insert_sorted cmp r acc) [] rows"

text \<open>\<^verbatim>\<open>gtk_list_box_append\<close>: at the end while no sort function is set, at the sorted
  position afterwards.\<close>

definition gtk_list_box_append :: "ptr \<Rightarrow> AppState \<Rightarrow> AppState" where
  "gtk_list_box_append row s =
     (case sort_func s of
        None \<Rightarrow> s\<lparr>sidebar_rows := sidebar_rows s @ [row]\<rparr>
      | Some m \<Rightarrow> s\<lparr>sidebar_rows := insert_sorted (sort_callback m s) row (sidebar_rows s)\<rparr>)"

definition apply_sort :: "AppState \<Rightarrow> AppState" where
  "apply_sort s =
     s\<lparr>sort_func := Some (sort_mode s),
       sidebar_rows := list_box_sort (sort_callback (sort_mode s) s) (sidebar_rows s)\<rparr>"

subsection \<open>Saving the session\<close>

definition active_index :: "'a list \<Rightarrow> 'a option \<Rightarrow> int" where
  "active_index xs active =
     (case active of None \<Rightarrow> 0
      | Some a \<Rightarrow> (let idx = g_list_index xs a in if idx \<ge> 0 then idx else 0))"

definition sort_mode_string :: "SortMode \<Rightarrow> string" where
  "sort_mode_string m =
     (case m of SORT_ALPHA \<Rightarrow> ''alpha'' | SORT_MRU \<Rightarrow> ''mru'' | SORT_NONE \<Rightarrow> ''none'')"

text \<open>The builders return \<open>None\<close> when they would read a struct that is not allocated.\<close>

definition subtab_json :: "AppState \<Rightarrow> Project \<Rightarrow> ptr \<Rightarrow> json option" where
  "subtab_json s project subtab =
     (case subtab_mem s subtab of
        None \<Rightarrow> None
      | Some S \<Rightarrow>
          Some (JObject
            [(''name'', JString (tab_name S)),
             (''working_dir'',
                JString (case current_directory S of Some d \<Rightarrow> d | None \<Rightarrow> path project))]))"

definition saved_subtab_json :: "SavedSubTab \<Rightarrow> json" where
  "saved_subtab_json saved =
     JObject [(''name'', JString (saved_name saved)),
              (''working_dir'', JString (working_dir saved))]"

definition project_json :: "AppState \<Rightarrow> ptr \<Rightarrow> json option" where
  "project_json s p =
     (case project_mem s p of
        None \<Rightarrow> None
      | Some project \<Rightarrow>
          (let head = [(''name'', JString (name project)),
                       (''path'', JString (path project)),
                       (''last_used'', JInt (last_used project))]
           in if initialized project then
                (case those (map (subtab_json s project) (subtabs project)) of
                   None \<Rightarrow> None
                 | Some subs \<Rightarrow>
                     Some (JObject (head @
                       [(''active_subtab_index'',
                           JInt (active_index (subtabs project) (active_subtab project))),
                        (''subtabs'', JArray subs)])))
              else if saved_subtabs project \<noteq> [] then
                Some (JObject (head @
                  [(''active_subtab_index'', JInt (sint (saved_active_subtab project))),
                   (''subtabs'', JArray (map saved_subtab_json (saved_subtabs project)))]))
              else
                Some (JObject (head @
                  [(''active_subtab_index'', JInt 0), (''subtabs'', JArray [])]))))"

definition session_document :: "AppState \<Rightarrow> json option" where
  "session_document s =
     (case those (map (project_json s) (projects s)) of
        None \<Rightarrow> None
      | Some ps \<Rightarrow>
          Some (JObject
            [(''active_project_index'', JInt (active_index (projects s) (active_project s))),
             (''sort_mode'', JString (sort_mode_string (sort_mode s))),
             (''projects'', JArray ps)]))"

text \<open>\<^verbatim>\<open>save_session\<close> overwrites \<^verbatim>\<open>session.json\<close> with the document; the write is
  taken to succeed.\<close>

definition save_session :: "AppState \<Rightarrow> AppState" where
  "save_session s =
     (case session_document s of
        None \<Rightarrow> fault s
      | Some doc \<Rightarrow> s\<lparr>session_json := Parsed (Some doc), saves := Suc (saves s)\<rparr>)"

subsection \<open>SubTab management\<close>

text \<open>\<^verbatim>\<open>on_subtab_button_clicked\<close> makes the SubTab the active one of its project. (The
  style classes it sets mirror \<open>active_subtab\<close> and are left out.)\<close>

definition on_subtab_button_clicked :: "ptr \<Rightarrow> AppState \<Rightarrow> AppState" where
  "on_subtab_button_clicked subtab s =
     (case subtab_mem s subtab of
        None \<Rightarrow> fault s
      | Some S \<Rightarrow> update_project (parent_tab S) (\<lambda>P. P\<lparr>active_subtab := Some subtab\<rparr>) s)"

text \<open>\<^verbatim>\<open>create_subtab\<close> allocates the SubTab at \<open>next_ptr\<close>, connects the terminal's
  signals, appends the tab row to the strip, asks VTE to spawn a shell in \<open>working_dir\<close>,
  appends the SubTab to the project's list and activates it.\<close>

definition create_subtab :: "ptr \<Rightarrow> string \<Rightarrow> string \<Rightarrow> AppState \<Rightarrow> AppState" where
  "create_subtab project nm wd s =
     (case project_mem s project of
        None \<Rightarrow> fault s
      | Some P \<Rightarrow>
          (let subtab = next_ptr s;
               S = \<lparr>tab_name = nm, parent_tab = project, closing = False,
                    current_directory = None, signals_connected = True,
                    tab_dragging = False\<rparr>;
               s1 = s\<lparr>subtab_mem := (subtab_mem s)(subtab \<mapsto> S),
                      next_ptr := Suc subtab,
                      spawned := spawned s @ [wd],
                      project_mem := (project_mem s)(project \<mapsto>
                        P\<lparr>tabs_box := tabs_box P @ [subtab],
                          subtabs := subtabs P @ [subtab]\<rparr>)\<rparr>
           in on_subtab_button_clicked subtab s1))"

text \<open>\<^verbatim>\<open>close_subtab\<close> after the guard and after \<^verbatim>\<open>subtab->closing = TRUE\<close>.\<close>

definition close_subtab_rest :: "ptr \<Rightarrow> AppState \<Rightarrow> AppState" where
  "close_subtab_rest subtab s =
     (case subtab_mem s subtab of
        None \<Rightarrow> fault s
      | Some S \<Rightarrow>
          (let project = parent_tab S in
           case project_mem s project of
             None \<Rightarrow> fault s
           | Some P \<Rightarrow>
               (let was_last = (length (subtabs P) = 1);
                    s1 = s\<lparr>subtab_mem := (subtab_mem s)(subtab \<mapsto>
                            S\<lparr>signals_connected := False\<rparr>)\<rparr>;
                    s2 = (if active_subtab P = Some subtab \<and> \<not> was_last then
                            (case link_neighbour None (subtabs P) subtab of
                               None \<Rightarrow> fault s1
                             | Some None \<Rightarrow> s1
                             | Some (Some new_active) \<Rightarrow> on_subtab_button_clicked new_active s1)
                          else s1)
                in case project_mem s2 project of
                     None \<Rightarrow> fault s2
                   | Some P2 \<Rightarrow>
                       (let P3 = P2\<lparr>tabs_box := remove1 subtab (tabs_box P2),
                                   subtabs := remove1 subtab (subtabs P2)\<rparr>;
                            P4 = (if active_subtab P3 = Some subtab
                                  then P3\<lparr>active_subtab := None\<rparr> else P3);
                            P5 = (if was_last then P4\<lparr>initialized := False\<rparr> else P4);
                            s3 = s2\<lparr>project_mem := (project_mem s2)(project \<mapsto> P5),
                                   subtab_mem := (subtab_mem s2)(subtab := None),
                                   freed := freed s2 @ [subtab]\<rparr>
                        in save_session s3))))"

definition close_subtab :: "ptr option \<Rightarrow> AppState \<Rightarrow> AppState" where
  "close_subtab subtab s =
     (case subtab of
        None \<Rightarrow> s
      | Some st \<Rightarrow>
          (case subtab_mem s st of
             None \<Rightarrow> fault s
           | Some S \<Rightarrow>
               if closing S then s
               else close_subtab_rest st
                      (s\<lparr>subtab_mem := (subtab_mem s)(st \<mapsto> S\<lparr>closing := True\<rparr>)\<rparr>)))"

definition on_close_subtab_clicked :: "ptr \<Rightarrow> AppState \<Rightarrow> AppState" where
  "on_close_subtab_clicked subtab s = close_subtab (Some subtab) s"

definition on_terminal_child_exited :: "ptr \<Rightarrow> AppState \<Rightarrow> AppState" where
  "on_terminal_child_exited subtab s =
     (case subtab_mem s subtab of
        None \<Rightarrow> fault s
      | Some S \<Rightarrow> if closing S then s else close_subtab (Some subtab) s)"

definition on_terminal_title_changed :: "ptr \<Rightarrow> string option \<Rightarrow> AppState \<Rightarrow> AppState" where
  "on_terminal_title_changed subtab title s =
     (case title of
        None \<Rightarrow> s
      | Some t \<Rightarrow> if t = [] then s else update_subtab subtab (\<lambda>S. S\<lparr>tab_name := t\<rparr>) s)"

definition free_saved_subtabs :: "ptr \<Rightarrow> AppState \<Rightarrow> AppState" where
  "free_saved_subtabs project s = update_project project (\<lambda>P. P\<lparr>saved_subtabs := []\<rparr>) s"

text \<open>\<^verbatim>\<open>snprintf (name, 64, "Tab %d", n)\<close>.\<close>

definition digit_char :: "nat \<Rightarrow> char" where
  "digit_char d = char_of (48 + d)"

function decimal :: "nat \<Rightarrow> string" where
  "decimal n = (if n < 10 then [digit_char n] else decimal (n div 10) @ [digit_char (n mod 10)])"
  by pat_completeness auto
termination
  by (relation "measure id") auto

definition tab_label :: "int \<Rightarrow> string" where
  "tab_label n = ''Tab '' @ (if n < 0 then CHR ''-'' # decimal (nat (- n)) else decimal (nat n))"

definition on_add_subtab_clicked :: "ptr \<Rightarrow> AppState \<Rightarrow> AppState" where
  "on_add_subtab_clicked project s =
     (case project_mem s project of
        None \<Rightarrow> fault s
      | Some P \<Rightarrow>
          if \<not> initialized P then
            update_project project (\<lambda>Q. Q\<lparr>subtab_counter := 1, initialized := True\<rparr>)
              (create_subtab project ''Tab 1'' (path P) (free_saved_subtabs project s))
          else
            create_subtab project (tab_label (subtab_counter P + 1)) (path P)
              (update_project project (\<lambda>Q. Q\<lparr>subtab_counter := subtab_counter Q + 1\<rparr>) s))"

text \<open>The sidebar's "+" button has the same body.\<close>

definition on_sidebar_add_subtab_clicked :: "ptr \<Rightarrow> AppState \<Rightarrow> AppState" where
  "on_sidebar_add_subtab_clicked project s = on_add_subtab_clicked project s"

subsection \<open>Drag reordering of a tab strip\<close>

definition gtk_widget_get_prev_sibling :: "'a list \<Rightarrow> 'a \<Rightarrow> 'a option" where
  "gtk_widget_get_prev_sibling box child =
     (case takeWhile (\<lambda>w. w \<noteq> child) box of [] \<Rightarrow> None | ws \<Rightarrow> Some (last ws))"

fun insert_after :: "'a \<Rightarrow> 'a \<Rightarrow> 'a list \<Rightarrow> 'a list" where
  "insert_after sibling child [] = []"
| "insert_after sibling child (w # ws) =
     (if w = sibling then w # child # ws else w # insert_after sibling child ws)"

text \<open>\<^verbatim>\<open>gtk_box_reorder_child_after\<close> moves \<open>child\<close> right after \<open>sibling\<close>, or to the
  front for a \<^verbatim>\<open>NULL\<close> sibling; it returns at once unless both are children of the box,
  and when they are the same widget.\<close>

definition gtk_box_reorder_child_after :: "'a list \<Rightarrow> 'a \<Rightarrow> 'a option \<Rightarrow> 'a list" where
  "gtk_box_reorder_child_after box child sibling =
     (if child \<notin> set box then box
      else case sibling of
             None \<Rightarrow> child # remove1 child box
           | Some sib \<Rightarrow>
               if sib \<notin> set box \<or> sib = child then box
               else insert_after sib child (remove1 child box))"

definition rebuild_subtabs_list :: "ptr \<Rightarrow> AppState \<Rightarrow> AppState" where
  "rebuild_subtabs_list project s = update_project project (\<lambda>P. P\<lparr>subtabs := tabs_box P\<rparr>) s"

text \<open>What \<^verbatim>\<open>gtk_widget_pick\<close> hit, as the two ancestor walks of \<^verbatim>\<open>on_tab_drag_begin\<close>
  see it: nothing with a tab row above it, the close button of a tab row, or another
  part of a tab row.\<close>

datatype picked = Pick_nothing | Pick_close ptr | Pick_tab ptr

definition on_tab_drag_begin :: "ptr \<Rightarrow> real \<Rightarrow> picked \<Rightarrow> AppState \<Rightarrow> AppState" where
  "on_tab_drag_begin project start_x hit s =
     (case project_mem s project of
        None \<Rightarrow> fault s
      | Some P \<Rightarrow>
          (case hit of
             Pick_close w \<Rightarrow> s
           | Pick_nothing \<Rightarrow> s
           | Pick_tab tab_btn \<Rightarrow>
               s\<lparr>project_mem := (project_mem s)(project \<mapsto>
                   P\<lparr>drag_tab := Some tab_btn, drag_active := False,
                     drag_start_x := Some start_x\<rparr>)\<rparr>))"

text \<open>The loop of \<^verbatim>\<open>on_tab_drag_update\<close> over the children of the strip. \<open>bounds\<close> is
  \<^verbatim>\<open>gtk_widget_compute_bounds\<close>: the origin and the width of a child in the strip's
  coordinates, or \<open>None\<close> when it fails. Coordinates are real numbers here; the source
  computes them in floating point.\<close>

fun drag_scan ::
  "(ptr \<Rightarrow> (real \<times> real) option) \<Rightarrow> ptr \<Rightarrow> real \<Rightarrow> ptr list \<Rightarrow> ptr list \<Rightarrow> ptr list" where
  "drag_scan bounds dragged_btn current_x box [] = box"
| "drag_scan bounds dragged_btn current_x box (child # rest) =
     (if child = dragged_btn then drag_scan bounds dragged_btn current_x box rest
      else case bounds child of
             None \<Rightarrow> drag_scan bounds dragged_btn current_x box rest
           | Some (child_x, child_width) \<Rightarrow>
               (case bounds dragged_btn of
                  None \<Rightarrow> drag_scan bounds dragged_btn current_x box rest
                | Some (dragged_x, dragged_width) \<Rightarrow>
                    (let child_mid = child_x + child_width / 2;
                         dragged_mid = dragged_x + dragged_width / 2
                     in if dragged_mid > child_mid \<and> current_x < child_mid then
                          (let prev = gtk_widget_get_prev_sibling box child
                           in if prev \<noteq> Some dragged_btn
                              then gtk_box_reorder_child_after box dragged_btn prev
                              else box)
                        else if dragged_mid < child_mid \<and> current_x > child_mid then
                          gtk_box_reorder_child_after box dragged_btn (Some child)
                        else drag_scan bounds dragged_btn current_x box rest)))"

definition on_tab_drag_update ::
  "ptr \<Rightarrow> real \<Rightarrow> (ptr \<Rightarrow> (real \<times> real) option) \<Rightarrow> AppState \<Rightarrow> AppState" where
  "on_tab_drag_update project offset_x bounds s =
     (case project_mem s project of
        None \<Rightarrow> fault s
      | Some P \<Rightarrow>
          (case drag_tab P of
             None \<Rightarrow> s
           | Some dragged_btn \<Rightarrow>
               (case drag_start_x P of
                  None \<Rightarrow> s
                | Some start_x \<Rightarrow>
                    if \<not> drag_active P \<and> \<bar>offset_x\<bar> < 6 then s
                    else
                      (let s1 = (if \<not> drag_active P then
                                   update_subtab dragged_btn (\<lambda>S. S\<lparr>tab_dragging := True\<rparr>)
                                     (s\<lparr>project_mem := (project_mem s)(project \<mapsto>
                                          P\<lparr>drag_active := True\<rparr>)\<rparr>)
                                 else s);
                           current_x = start_x + offset_x
                       in update_project project
                            (\<lambda>Q. Q\<lparr>tabs_box :=
                                 drag_scan bounds dragged_btn current_x (tabs_box Q) (tabs_box Q)\<rparr>)
                            s1))))"

definition on_tab_drag_end :: "ptr \<Rightarrow> AppState \<Rightarrow> AppState" where
  "on_tab_drag_end project s =
     (case project_mem s project of
        None \<Rightarrow> fault s
      | Some P \<Rightarrow>
          (let s1 = (case drag_tab P of
                       None \<Rightarrow> s
                     | Some dragged_btn \<Rightarrow>
                         if drag_active P then
                           save_session
                             (rebuild_subtabs_list project
                                (update_subtab dragged_btn (\<lambda>S. S\<lparr>tab_dragging := False\<rparr>) s))
                         else s)
           in update_project project (\<lambda>Q. Q\<lparr>drag_tab := None, drag_active := False\<rparr>) s1))"

text \<open>\<^verbatim>\<open>setup_tabs_box_drag_reorder\<close> connects the three handlers to one \<^verbatim>\<open>GtkGestureDrag\<close>
  of the strip: a gesture is one \<^verbatim>\<open>drag-begin\<close>, then \<^verbatim>\<open>drag-update\<close>s, each with the
  offset from the press point and the layout of the strip at that moment, then one
  \<^verbatim>\<open>drag-end\<close>.\<close>

fun drag_updates ::
  "ptr \<Rightarrow> (real \<times> (ptr \<Rightarrow> (real \<times> real) option)) list \<Rightarrow> AppState \<Rightarrow> AppState" where
  "drag_updates project [] s = s"
| "drag_updates project ((offset_x, bounds) # rest) s =
     drag_updates project rest (on_tab_drag_update project offset_x bounds s)"

definition drag_gesture ::
  "ptr \<Rightarrow> real \<Rightarrow> picked \<Rightarrow> (real \<times> (ptr \<Rightarrow> (real \<times> real) option)) list \<Rightarrow>
   AppState \<Rightarrow> AppState" where
  "drag_gesture project start_x hit updates s =
     on_tab_drag_end project
       (drag_updates project updates (on_tab_drag_begin project start_x hit s))"

subsection \<open>Project management\<close>

fun restore_saved_subtabs :: "ptr \<Rightarrow> SavedSubTab list \<Rightarrow> AppState \<Rightarrow> AppState" where
  "restore_saved_subtabs project [] s = s"
| "restore_saved_subtabs project (saved # rest) s =
     restore_saved_subtabs project rest
       (create_subtab project (saved_name saved) (working_dir saved) s)"

text \<open>\<^verbatim>\<open>on_project_selected\<close>, the handler of the sidebar's \<^verbatim>\<open>row-selected\<close> signal. The
  row carries the project; a \<^verbatim>\<open>NULL\<close> row is ignored.\<close>

definition on_project_selected :: "ptr option \<Rightarrow> AppState \<Rightarrow> AppState" where
  "on_project_selected row s =
     (case row of
        None \<Rightarrow> s
      | Some project \<Rightarrow>
          (case project_mem s project of
             None \<Rightarrow> fault s
           | Some P \<Rightarrow>
               (let page_num = g_list_index (projects s) project
                in if page_num \<ge> 0 then
                     (let s1 = s\<lparr>active_project := Some project,
                                 project_mem := (project_mem s)(project \<mapsto>
                                   P\<lparr>last_used := real_time s\<rparr>)\<rparr>
                      in if \<not> initialized P then
                           (let s2 =
                              (if saved_subtabs P \<noteq> [] then
                                 (let s3 = restore_saved_subtabs project (saved_subtabs P) s1;
                                      s4 = update_project project
                                             (\<lambda>Q. Q\<lparr>subtab_counter := int (length (saved_subtabs Q))\<rparr>) s3;
                                      s5 = (case project_mem s4 project of
                                              None \<Rightarrow> fault s4
                                            | Some Q \<Rightarrow>
                                                (case g_list_nth (subtabs Q)
                                                        (guint_of_int (saved_active_subtab Q)) of
                                                   None \<Rightarrow> s4
                                                 | Some active_sub \<Rightarrow>
                                                     on_subtab_button_clicked active_sub s4))
                                  in free_saved_subtabs project s5)
                               else
                                 update_project project (\<lambda>Q. Q\<lparr>subtab_counter := 1\<rparr>)
                                   (create_subtab project ''Tab 1'' (path P) s1))
                            in update_project project (\<lambda>Q. Q\<lparr>initialized := True\<rparr>) s2)
                         else s1)
                   else s)))"

text \<open>\<^verbatim>\<open>activate\<close> connects \<^verbatim>\<open>on_project_selected\<close> to the sidebar's \<^verbatim>\<open>row-selected\<close>
  signal (main.c:2369) before it calls \<^verbatim>\<open>load_session\<close> (main.c:2392), and nothing
  disconnects it. \<^verbatim>\<open>gtk_list_box_select_row\<close> on a row that is not the selected one
  selects it and emits the signal, so the handler runs inside the call; on the selected
  row it does nothing. A click on a sidebar row goes the same way.\<close>

definition gtk_list_box_select_row :: "ptr \<Rightarrow> AppState \<Rightarrow> AppState" where
  "gtk_list_box_select_row row s =
     (if selected_row s = Some row then s
      else on_project_selected (Some row) (s\<lparr>selected_row := Some row\<rparr>))"

text \<open>\<^verbatim>\<open>gtk_list_box_remove\<close>: removing the selected row clears the selection and emits
  \<^verbatim>\<open>row-selected\<close> with a \<^verbatim>\<open>NULL\<close> row.\<close>

definition gtk_list_box_remove :: "ptr \<Rightarrow> AppState \<Rightarrow> AppState" where
  "gtk_list_box_remove row s =
     (let s1 = s\<lparr>sidebar_rows := remove1 row (sidebar_rows s)\<rparr>
      in if selected_row s = Some row
         then on_project_selected None (s1\<lparr>selected_row := None\<rparr>)
         else s1)"

text \<open>\<^verbatim>\<open>create_project\<close> allocates the project at \<open>next_ptr\<close> (the address it returns).
  The row is appended to the sidebar before \<open>insert_order\<close> is assigned.\<close>

definition create_project :: "string \<Rightarrow> string \<Rightarrow> bool \<Rightarrow> AppState \<Rightarrow> AppState" where
  "create_project nm pth init_terminal s =
     (let project = next_ptr s;
          P = \<lparr>subtabs = [], active_subtab = None, subtab_counter = 0, name = nm,
               path = pth, initialized = False, last_used = 0, insert_order = 0,
               saved_subtabs = [], saved_active_subtab = 0, tabs_box = [],
               drag_tab = None, drag_active = False, drag_start_x = None\<rparr>;
          s1 = gtk_list_box_append project
                 (s\<lparr>project_mem := (project_mem s)(project \<mapsto> P), next_ptr := Suc project\<rparr>);
          s2 = s1\<lparr>project_mem := (project_mem s1)(project \<mapsto>
                    P\<lparr>insert_order := int (length (projects s1))\<rparr>),
                  projects := projects s1 @ [project],
                  active_project := Some project\<rparr>
      in if init_terminal then
           gtk_list_box_select_row project
             (update_project project (\<lambda>Q. Q\<lparr>subtab_counter := 1, initialized := True\<rparr>)
                (create_subtab project ''Tab 1'' pth s2))
         else s2)"

text \<open>\<^verbatim>\<open>on_folder_selected\<close>: the dialog yields no folder, or its basename and path.\<close>

definition on_folder_selected :: "(string \<times> string) option \<Rightarrow> AppState \<Rightarrow> AppState" where
  "on_folder_selected folder s =
     (case folder of
        None \<Rightarrow> s
      | Some (basename, pth) \<Rightarrow> save_session (create_project basename pth True s))"

fun free_subtabs :: "ptr list \<Rightarrow> AppState \<Rightarrow> AppState" where
  "free_subtabs [] s = s"
| "free_subtabs (subtab # rest) s =
     free_subtabs rest
       (case subtab_mem s subtab of
          None \<Rightarrow> fault s
        | Some S \<Rightarrow> s\<lparr>subtab_mem := (subtab_mem s)(subtab := None),
                      freed := freed s @ [subtab]\<rparr>)"

definition on_remove_project_clicked :: "AppState \<Rightarrow> AppState" where
  "on_remove_project_clicked s =
     (case active_project s of
        None \<Rightarrow> s
      | Some project \<Rightarrow>
          (case project_mem s project of
             None \<Rightarrow> fault s
           | Some P \<Rightarrow>
               (let s1 = gtk_list_box_remove project s;
                    s2 = free_subtabs (subtabs P) s1;
                    s3 = s2\<lparr>projects := remove1 project (projects s2),
                           project_mem := (project_mem s2)(project := None)\<rparr>;
                    s4 = save_session s3
                in case projects s4 of
                     [] \<Rightarrow> s4\<lparr>active_project := None\<rparr>
                   | first # _ \<Rightarrow>
                       (case project_mem s4 first of
                          None \<Rightarrow> fault (s4\<lparr>active_project := Some first\<rparr>)
                        | Some F \<Rightarrow>
                            gtk_list_box_select_row first (s4\<lparr>active_project := Some first\<rparr>)))))"

definition on_sort_clicked :: "AppState \<Rightarrow> AppState" where
  "on_sort_clicked s =
     save_session (apply_sort (s\<lparr>sort_mode :=
       (case sort_mode s of SORT_NONE \<Rightarrow> SORT_ALPHA | SORT_ALPHA \<Rightarrow> SORT_MRU
        | SORT_MRU \<Rightarrow> SORT_NONE)\<rparr>))"

subsection \<open>Loading the session\<close>

fun load_saved_subtabs :: "string \<Rightarrow> json list \<Rightarrow> SavedSubTab list" where
  "load_saved_subtabs pth [] = []"
| "load_saved_subtabs pth (e # es) =
     (case json_array_get_object_element e of
        None \<Rightarrow> load_saved_subtabs pth es
      | Some sub_obj \<Rightarrow>
          \<lparr>saved_name = (case json_object_get_string_member sub_obj ''name'' of
                           None \<Rightarrow> ''Tab'' | Some sub_name \<Rightarrow> sub_name),
           working_dir = (case json_object_get_string_member sub_obj ''working_dir'' of
                            None \<Rightarrow> pth | Some d \<Rightarrow> d)\<rparr>
          # load_saved_subtabs pth es)"

text \<open>One round of the loop over the \<^verbatim>\<open>projects\<close> array.\<close>

definition load_project :: "json \<Rightarrow> AppState \<Rightarrow> AppState" where
  "load_project e s =
     (case json_array_get_object_element e of
        None \<Rightarrow> s
      | Some proj_obj \<Rightarrow>
          (case json_object_get_string_member proj_obj ''name'' of
             None \<Rightarrow> s
           | Some nm \<Rightarrow>
               (case json_object_get_string_member proj_obj ''path'' of
                  None \<Rightarrow> s
                | Some pth \<Rightarrow>
                    (let project = next_ptr s;
                         s1 = create_project nm pth False s;
                         s2 = (if json_object_has_member proj_obj ''last_used'' then
                                 update_project project
                                   (\<lambda>Q. Q\<lparr>last_used :=
                                        json_object_get_int_member proj_obj ''last_used''\<rparr>) s1
                               else s1)
                     in if json_object_has_member proj_obj ''subtabs'' then
                          update_project project
                            (\<lambda>Q. Q\<lparr>saved_subtabs := saved_subtabs Q @
                                    load_saved_subtabs pth
                                      (json_array_elements
                                         (json_object_get_array_member proj_obj ''subtabs'')),
                                  saved_active_subtab :=
                                    (if json_object_has_member proj_obj ''active_subtab_index''
                                     then int_of_gint64
                                            (json_object_get_int_member proj_obj
                                               ''active_subtab_index'')
                                     else 0)\<rparr>) s2
                        else s2))))"

fun load_projects :: "json list \<Rightarrow> AppState \<Rightarrow> AppState" where
  "load_projects [] s = s"
| "load_projects (e # es) s = load_projects es (load_project e s)"

text \<open>The legacy \<^verbatim>\<open>projects.conf\<close>: one \<^verbatim>\<open>[timestamp|]path\<close> per line.
  \<^verbatim>\<open>g_ascii_strtoll\<close> in base 10 skips white space, reads a sign and digits, and clamps
  to the range of \<^verbatim>\<open>gint64\<close>; \<^verbatim>\<open>g_path_get_basename\<close> drops trailing slashes and
  keeps what follows the last remaining slash.\<close>

definition g_ascii_isspace :: "char \<Rightarrow> bool" where
  "g_ascii_isspace c = (of_char c \<in> {32, 9, 10, 11, 12, 13 :: nat})"

definition g_ascii_isdigit :: "char \<Rightarrow> bool" where
  "g_ascii_isdigit c = (48 \<le> (of_char c :: nat) \<and> (of_char c :: nat) \<le> 57)"

definition g_ascii_strtoll :: "string \<Rightarrow> int" where
  "g_ascii_strtoll str =
     (let t = dropWhile g_ascii_isspace str;
          negative = (case t of c # _ \<Rightarrow> c = CHR ''-'' | [] \<Rightarrow> False);
          u = (case t of c # r \<Rightarrow> if c = CHR ''-'' \<or> c = CHR ''+'' then r else t | [] \<Rightarrow> t);
          v = foldl (\<lambda>a c. 10 * a + (int (of_char c) - 48)) 0 (takeWhile g_ascii_isdigit u)
      in if negative then max (- (2 ^ 63)) (- v) else min (2 ^ 63 - 1) v)"

definition g_path_get_basename :: "string \<Rightarrow> string" where
  "g_path_get_basename file_name =
     (if file_name = [] then ''.''
      else (let t = rev (dropWhile (\<lambda>c. c = CHR ''/'') (rev file_name))
            in if t = [] then ''/''
               else rev (takeWhile (\<lambda>c. c \<noteq> CHR ''/'') (rev t))))"

definition load_legacy_line :: "string \<Rightarrow> AppState \<Rightarrow> AppState" where
  "load_legacy_line buffer s =
     (let line = (if buffer \<noteq> [] \<and> last buffer = CHR 0x0A then butlast buffer else buffer)
      in if line = [] then s
         else
           (let prefix = takeWhile (\<lambda>c. c \<noteq> CHR ''|'') line;
                has_pipe = (prefix \<noteq> line);
                stamp = (if has_pipe \<and> prefix \<noteq> [] then g_ascii_strtoll prefix else 0);
                pth = (if has_pipe \<and> prefix \<noteq> [] then drop (Suc (length prefix)) line
                       else line);
                project = next_ptr s
            in update_project project (\<lambda>Q. Q\<lparr>last_used := stamp\<rparr>)
                 (create_project (g_path_get_basename pth) pth False s)))"

fun load_legacy_lines :: "string list \<Rightarrow> AppState \<Rightarrow> AppState" where
  "load_legacy_lines [] s = s"
| "load_legacy_lines (buffer # rest) s = load_legacy_lines rest (load_legacy_line buffer s)"

definition load_legacy_sort :: "AppState \<Rightarrow> AppState" where
  "load_legacy_sort s =
     (case sort_conf s of
        None \<Rightarrow> s
      | Some None \<Rightarrow> s
      | Some (Some buffer) \<Rightarrow>
          (let sline = (if buffer \<noteq> [] \<and> last buffer = CHR 0x0A then butlast buffer
                        else buffer)
           in if sline = ''alpha'' then s\<lparr>sort_mode := SORT_ALPHA\<rparr>
              else if sline = ''mru'' then s\<lparr>sort_mode := SORT_MRU\<rparr>
              else s))"

definition load_session :: "AppState \<Rightarrow> AppState" where
  "load_session s =
     (case session_json s of
        No_file \<Rightarrow>
          (case legacy_projects s of
             None \<Rightarrow> s
           | Some buffers \<Rightarrow> save_session (load_legacy_sort (load_legacy_lines buffers s)))
      | Unparseable \<Rightarrow> s
      | Parsed root_node \<Rightarrow>
          (case root_node of
             Some (JObject root_obj) \<Rightarrow>
               (let s1 = (if json_object_has_member root_obj ''sort_mode'' then
                            (let mode_str = json_object_get_string_member root_obj ''sort_mode''
                             in s\<lparr>sort_mode :=
                                   (if mode_str = Some ''alpha'' then SORT_ALPHA
                                    else if mode_str = Some ''mru'' then SORT_MRU
                                    else SORT_NONE)\<rparr>)
                          else s);
                    active_project_index =
                      (if json_object_has_member root_obj ''active_project_index''
                       then int_of_gint64
                              (json_object_get_int_member root_obj ''active_project_index'')
                       else 0)
                in if \<not> json_object_has_member root_obj ''projects'' then s1
                   else
                     (let s2 = load_projects
                                 (json_array_elements
                                    (json_object_get_array_member root_obj ''projects'')) s1
                      in case g_list_nth (projects s2) (guint_of_int active_project_index) of
                           None \<Rightarrow> s2
                         | Some active_proj \<Rightarrow>
                             (case project_mem s2 active_proj of
                                None \<Rightarrow> fault (s2\<lparr>active_project := Some active_proj\<rparr>)
                              | Some A \<Rightarrow>
                                  gtk_list_box_select_row active_proj
                                    (s2\<lparr>active_project := Some active_proj\<rparr>))))
           | _ \<Rightarrow> s))"

text \<open>The state \<^verbatim>\<open>activate\<close> builds before it calls \<^verbatim>\<open>load_session\<close>: a zeroed
  \<^verbatim>\<open>AppState\<close>, an empty sidebar without sort function, and the files and the clock
  as the environment has them.\<close>

definition fresh_app ::
  "session_file \<Rightarrow> string list option \<Rightarrow> string option option \<Rightarrow> int \<Rightarrow> AppState" where
  "fresh_app file legacy sortc now =
     \<lparr>projects = [], active_project = None, sort_mode = SORT_NONE,
      project_mem = Map.empty, subtab_mem = Map.empty, next_ptr = 0, invalid_deref = False,
      sidebar_rows = [], selected_row = None, sort_func = None, real_time = now,
      session_json = file, legacy_projects = legacy, sort_conf = sortc,
      spawned = [], saves = 0, freed = []\<rparr>"

subsection \<open>Reading the model\<close>

text \<open>The project a sidebar row carries.\<close>

definition row_project :: "AppState \<Rightarrow> ptr \<Rightarrow> Project" where
  "row_project s row = the (project_mem s row)"

text \<open>The shape of the heap that every handler keeps: the project list has no
  duplicate and lists exactly the allocated projects; the SubTabs of a project are distinct
  and allocated and point back to it, and its tab strip shows exactly them; every allocated
  SubTab is in the list of its parent; nothing lives at or above \<open>next_ptr\<close>.\<close>

definition subtabs_ok :: "(ptr \<Rightarrow> SubTab option) \<Rightarrow> ptr \<Rightarrow> Project \<Rightarrow> bool" where
  "subtabs_ok sm p P \<longleftrightarrow>
     distinct (subtabs P) \<and> mset (tabs_box P) = mset (subtabs P) \<and>
     (\<forall>st \<in> set (subtabs P). \<exists>S. sm st = Some S \<and> parent_tab S = p)"

definition heap_inv ::
  "ptr list \<Rightarrow> (ptr \<Rightarrow> Project option) \<Rightarrow> (ptr \<Rightarrow> SubTab option) \<Rightarrow> ptr \<Rightarrow> bool" where
  "heap_inv ps pm sm n \<longleftrightarrow>
     distinct ps \<and>
     (\<forall>p. (p \<in> set ps) = (pm p \<noteq> None)) \<and>
     (\<forall>p P. pm p = Some P \<longrightarrow> subtabs_ok sm p P) \<and>
     (\<forall>st S. sm st = Some S \<longrightarrow> (\<exists>P. pm (parent_tab S) = Some P \<and> st \<in> set (subtabs P))) \<and>
     (\<forall>a. n \<le> a \<longrightarrow> pm a = None \<and> sm a = None)"

definition heap_ok :: "AppState \<Rightarrow> bool" where
  "heap_ok s = heap_inv (projects s) (project_mem s) (subtab_mem s) (next_ptr s)"

text \<open>The two states of a project: initialized with live SubTabs and no pending
  descriptor, or uninitialized with no live SubTab.\<close>

definition lifecycle :: "Project \<Rightarrow> bool" where
  "lifecycle P \<longleftrightarrow>
     (initialized P \<and> subtabs P \<noteq> [] \<and> saved_subtabs P = []) \<or>
     (\<not> initialized P \<and> subtabs P = [])"

definition lifecycle_ok :: "AppState \<Rightarrow> bool" where
  "lifecycle_ok s \<longleftrightarrow> (\<forall>p P. project_mem s p = Some P \<longrightarrow> lifecycle P)"

text \<open>The SubTab \<^verbatim>\<open>create_subtab\<close> allocates.\<close>

definition new_subtab :: "ptr \<Rightarrow> string \<Rightarrow> SubTab" where
  "new_subtab p nm = \<lparr>tab_name = nm, parent_tab = p, closing = False,
      current_directory = None, signals_connected = True, tab_dragging = False\<rparr>"

definition well_formed :: "AppState \<Rightarrow> bool" where
  "well_formed s \<longleftrightarrow> heap_ok s \<and> lifecycle_ok s"

text \<open>The project \<^verbatim>\<open>create_project\<close> allocates, once its \<open>insert_order\<close> is set.\<close>

definition new_project :: "string \<Rightarrow> string \<Rightarrow> nat \<Rightarrow> Project" where
  "new_project nm pth k =
     \<lparr>subtabs = [], active_subtab = None, subtab_counter = 0, name = nm,
      path = pth, initialized = False, last_used = 0, insert_order = int k,
      saved_subtabs = [], saved_active_subtab = 0, tabs_box = [],
      drag_tab = None, drag_active = False, drag_start_x = None\<rparr>"

text \<open>The project the loop of \<^verbatim>\<open>load_session\<close> builds from a JSON object with a name
  and a path, as the \<open>k\<close>-th project of the list.\<close>

definition loaded_project :: "(string \<times> json) list \<Rightarrow> string \<Rightarrow> string \<Rightarrow> nat \<Rightarrow> Project" where
  "loaded_project obj nm pth k =
     (new_project nm pth k)
       \<lparr>last_used := (if json_object_has_member obj ''last_used''
                      then json_object_get_int_member obj ''last_used'' else 0),
        saved_subtabs :=
          (if json_object_has_member obj ''subtabs''
           then load_saved_subtabs pth
                  (json_array_elements (json_object_get_array_member obj ''subtabs''))
           else []),
        saved_active_subtab :=
          (if json_object_has_member obj ''subtabs'' \<and>
              json_object_has_member obj ''active_subtab_index''
           then int_of_gint64 (json_object_get_int_member obj ''active_subtab_index'')
           else 0)\<rparr>"

text \<open>What \<^verbatim>\<open>load_session\<close> reads from the root object before the loop: the sort mode
  (kept when the member is missing) and the index of the active project as
  \<^verbatim>\<open>g_list_nth\<close> receives it.\<close>

definition session_sort_mode :: "(string \<times> json) list \<Rightarrow> SortMode \<Rightarrow> SortMode" where
  "session_sort_mode root_obj current =
     (if json_object_has_member root_obj ''sort_mode'' then
        (if json_object_get_string_member root_obj ''sort_mode'' = Some ''alpha'' then SORT_ALPHA
         else if json_object_get_string_member root_obj ''sort_mode'' = Some ''mru'' then SORT_MRU
         else SORT_NONE)
      else current)"

definition session_active_index :: "(string \<times> json) list \<Rightarrow> nat" where
  "session_active_index root_obj =
     guint_of_int
       (if json_object_has_member root_obj ''active_project_index''
        then int_of_gint64 (json_object_get_int_member root_obj ''active_project_index'')
        else 0)"

text \<open>No project has been materialised: every project is uninitialized without live
  SubTab, no terminal was asked for, no SubTab is allocated, no sidebar row is selected.\<close>

definition dormant :: "AppState \<Rightarrow> bool" where
  "dormant s \<longleftrightarrow>
     (\<forall>p P. project_mem s p = Some P \<longrightarrow> \<not> initialized P \<and> subtabs P = []) \<and>
     spawned s = [] \<and> subtab_mem s = Map.empty \<and> selected_row s = None"

text \<open>The operations of the lifecycle: the functions of \<^verbatim>\<open>main.c\<close> that change the
  session state, and what the environment changes between two of them (the directory a
  terminal reports, the clock).\<close>

datatype operation =
    Load_session
  | Apply_sort
  | Save_session
  | Create_project string string bool
  | On_folder_selected "(string \<times> string) option"
  | On_project_selected "ptr option"
  | Select_row ptr
  | On_add_subtab_clicked ptr
  | On_sidebar_add_subtab_clicked ptr
  | On_subtab_button_clicked ptr
  | Close_subtab "ptr option"
  | On_close_subtab_clicked ptr
  | On_terminal_child_exited ptr
  | On_terminal_title_changed ptr "string option"
  | On_remove_project_clicked
  | On_sort_clicked
  | On_tab_drag_begin ptr real picked
  | On_tab_drag_update ptr real "ptr \<Rightarrow> (real \<times> real) option"
  | On_tab_drag_end ptr
  | Directory_changed ptr "string option"
  | Clock int

fun perform :: "operation \<Rightarrow> AppState \<Rightarrow> AppState" where
  "perform Load_session s = load_session s"
| "perform Apply_sort s = apply_sort s"
| "perform Save_session s = save_session s"
| "perform (Create_project nm pth init_terminal) s = create_project nm pth init_terminal s"
| "perform (On_folder_selected folder) s = on_folder_selected folder s"
| "perform (On_project_selected row) s = on_project_selected row s"
| "perform (Select_row row) s = gtk_list_box_select_row row s"
| "perform (On_add_subtab_clicked project) s = on_add_subtab_clicked project s"
| "perform (On_sidebar_add_subtab_clicked project) s = on_sidebar_add_subtab_clicked project s"
| "perform (On_subtab_button_clicked subtab) s = on_subtab_button_clicked subtab s"
| "perform (Close_subtab subtab) s = close_subtab subtab s"
| "perform (On_close_subtab_clicked subtab) s = on_close_subtab_clicked subtab s"
| "perform (On_terminal_child_exited subtab) s = on_terminal_child_exited subtab s"
| "perform (On_terminal_title_changed subtab title) s = on_terminal_title_changed subtab title s"
| "perform On_remove_project_clicked s = on_remove_project_clicked s"
| "perform On_sort_clicked s = on_sort_clicked s"
| "perform (On_tab_drag_begin project start_x hit) s = on_tab_drag_begin project start_x hit s"
| "perform (On_tab_drag_update project offset_x bounds) s =
     on_tab_drag_update project offset_x bounds s"
| "perform (On_tab_drag_end project) s = on_tab_drag_end project s"
| "perform (Directory_changed subtab dir) s =
     (case subtab_mem s subtab of
        None \<Rightarrow> s
      | Some S \<Rightarrow> s\<lparr>subtab_mem := (subtab_mem s)(subtab \<mapsto> S\<lparr>current_directory := dir\<rparr>)\<rparr>)"
| "perform (Clock now) s = s\<lparr>real_time := now\<rparr>"

fun perform_all :: "operation list \<Rightarrow> AppState \<Rightarrow> AppState" where
  "perform_all [] s = s"
| "perform_all (op # ops) s = perform_all ops (perform op s)"

text \<open>The application after one project is added through the folder dialog's path, and
  the project it then holds: one live tab, \<open>Tab 1\<close>, at address 1.\<close>

definition one_tab_app :: AppState where
  "one_tab_app = create_project ''a'' ''/a'' True (fresh_app No_file None None 0)"

definition one_tab_project :: Project where
  "one_tab_project =
     (new_project ''a'' ''/a'' 0)\<lparr>subtabs := [1], active_subtab := Some 1, subtab_counter := 1,
        initialized := True, tabs_box := [1]\<rparr>"

text \<open>The application after two more tabs are added to the project of \<open>one_tab_app\<close>
  (the tabs are at the addresses 1, 2, 3), and a layout of a strip: every child 100
  units wide, left to right in the order of the strip.\<close>

definition three_tab_app :: AppState where
  "three_tab_app = on_add_subtab_clicked 0 (on_add_subtab_clicked 0 one_tab_app)"

definition strip_layout :: "ptr list \<Rightarrow> ptr \<Rightarrow> (real \<times> real) option" where
  "strip_layout box w =
     (if w \<in> set box then Some (100 * real (length (takeWhile (\<lambda>v. v \<noteq> w) box)), 100)
      else None)"



text \<open>A session file with two projects: \<open>a\<close> without SubTab descriptors and \<open>b\<close> with
  one, and no \<open>active_project_index\<close>.\<close>

definition two_project_session :: json where
  "two_project_session =
     JObject [(''projects'', JArray
       [JObject [(''name'', JString ''a''), (''path'', JString ''/a'')],
        JObject [(''name'', JString ''b''), (''path'', JString ''/b''),
                 (''subtabs'', JArray [JObject [(''name'', JString ''x''),
                                               (''working_dir'', JString ''/x'')]])]])]"

text \<open>Three uninitialized projects, listed in the order banana, apple, cherry, with
  \<open>insert_order\<close> 2, 0, 1 and \<open>last_used\<close> 10, 30, 20.\<close>

definition three_projects :: "SortMode \<Rightarrow> AppState" where
  "three_projects m =
     (let P = (\<lambda>nm lu io. \<lparr>subtabs = [], active_subtab = None, subtab_counter = 0, name = nm,
                 path = ''/'' @ nm, initialized = False, last_used = lu, insert_order = io,
                 saved_subtabs = [], saved_active_subtab = 0, tabs_box = [],
                 drag_tab = None, drag_active = False, drag_start_x = None\<rparr>)
      in (fresh_app No_file None None 0)
           \<lparr>projects := [0, 1, 2], sidebar_rows := [0, 1, 2], next_ptr := 3, sort_mode := m,
            project_mem := [0 \<mapsto> P ''banana'' 10 2, 1 \<mapsto> P ''apple'' 30 0,
                            2 \<mapsto> P ''cherry'' 20 1]\<rparr>)"

section \<open>Properties\<close>

subsection \<open>Loading a session file that holds no project list\<close>

lemma load_session_without_projects:
  assumes "session_json s = Parsed (Some (JObject obj))"
    and "json_object_get_array_member obj ''projects'' = None"
    and "projects s = []"
  shows "load_session s = s\<lparr>sort_mode :=
           (if json_object_has_member obj ''sort_mode'' then
              (if json_object_get_string_member obj ''sort_mode'' = Some ''alpha'' then SORT_ALPHA
               else if json_object_get_string_member obj ''sort_mode'' = Some ''mru'' then SORT_MRU
               else SORT_NONE)
            else sort_mode s)\<rparr>"
  using assms
  by (simp add: load_session_def Let_def json_array_elements_def g_list_nth_def)

lemma load_session_not_object:
  assumes "session_json s = Unparseable \<or> session_json s = Parsed None \<or>
           (\<exists>j. session_json s = Parsed (Some j) \<and> (\<forall>obj. j \<noteq> JObject obj))"
  shows "load_session s = s"
  using assms
  by (auto simp: load_session_def split: json.splits)

text \<open>
  \<^bold>\<open>C9\<close> (corrupt-session fallback). When \<^verbatim>\<open>session.json\<close> exists and cannot be parsed,
  or parses to an empty document or to a root that is not an object, or its root object
  has no \<^verbatim>\<open>projects\<close> member that is an array, \<^verbatim>\<open>load_session\<close> on the freshly built
  application returns with zero projects: no project is allocated, no terminal is
  spawned and no invalid address is read. The function is total, so the process goes on.
\<close>

theorem corrupt_session_fallback:
  assumes "file = Unparseable \<or> file = Parsed None \<or>
           (\<exists>j. file = Parsed (Some j) \<and>
                (\<forall>obj. j = JObject obj \<longrightarrow> json_object_get_array_member obj ''projects'' = None))"
  shows "projects (load_session (fresh_app file legacy sortc now)) = [] \<and>
         project_mem (load_session (fresh_app file legacy sortc now)) = Map.empty \<and>
         spawned (load_session (fresh_app file legacy sortc now)) = [] \<and>
         \<not> invalid_deref (load_session (fresh_app file legacy sortc now))"
proof -
  let ?s = "fresh_app file legacy sortc now"
  have sj: "session_json ?s = file" and no_projects: "projects ?s = []"
    by (simp_all add: fresh_app_def)
  have "load_session ?s = ?s \<or> (\<exists>m. load_session ?s = ?s\<lparr>sort_mode := m\<rparr>)"
  proof (cases "\<exists>obj. file = Parsed (Some (JObject obj))")
    case True
    then obtain obj where obj: "file = Parsed (Some (JObject obj))" by blast
    with assms have "json_object_get_array_member obj ''projects'' = None" by auto
    with load_session_without_projects [of ?s obj] sj no_projects obj show ?thesis by metis
  next
    case False
    with assms sj have "load_session ?s = ?s"
      by (intro load_session_not_object) auto
    then show ?thesis ..
  qed
  then show ?thesis
    by (auto simp: fresh_app_def)
qed

theorem corrupt_session_fallback_witness:
  "projects (load_session (fresh_app (Parsed (Some (JArray []))) None None 0)) = [] \<and>
   projects (load_session (fresh_app Unparseable None None 0)) = [] \<and>
   projects (load_session (fresh_app
      (Parsed (Some (JObject [(''sort_mode'', JString ''mru'')]))) None None 0)) = []"
  using corrupt_session_fallback [of "Parsed (Some (JArray []))" None None 0]
        corrupt_session_fallback [of Unparseable None None 0]
        corrupt_session_fallback
          [of "Parsed (Some (JObject [(''sort_mode'', JString ''mru'')]))" None None 0]
  by (simp add: json_object_get_array_member_def json_object_get_member_def)

subsection \<open>The insertion order after a removal\<close>

text \<open>
  \<^bold>\<open>C5\<close> (\<open>insert_order\<close> uniqueness). \<^verbatim>\<open>create_project\<close> assigns the current length of
  the project list. After the projects a, b, c are created and c and a are removed (each
  removal takes the active project, and activates the first remaining one), the list holds
  b alone, with \<open>insert_order\<close> 1; the project d created next is given the length 1 as
  well. The two projects of the application then share one \<open>insert_order\<close>.
\<close>

theorem insert_order_collision:
  "(let s = create_project ''d'' ''/d'' True
              (on_remove_project_clicked
                (on_remove_project_clicked
                  (create_project ''c'' ''/c'' True
                    (create_project ''b'' ''/b'' True
                      (create_project ''a'' ''/a'' True
                        (fresh_app No_file None None 100))))))
    in map (\<lambda>p. map_option (\<lambda>P. (name P, insert_order P)) (project_mem s p)) (projects s))
   = [Some (''b'', 1), Some (''d'', 1)]"
  by code_simp

subsection \<open>The sort engine\<close>

lemma mset_insert_sorted: "mset (insert_sorted cmp x ys) = add_mset x (mset ys)"
  by (induction ys) auto

lemma mset_foldl_insert_sorted:
  "mset (foldl (\<lambda>acc r. insert_sorted cmp r acc) acc rows) = mset acc + mset rows"
  by (induction rows arbitrary: acc) (auto simp: mset_insert_sorted)

lemma mset_list_box_sort: "mset (list_box_sort cmp rows) = mset rows"
  by (simp add: list_box_sort_def mset_foldl_insert_sorted)

lemma sorted_insert_sorted:
  fixes key :: "'a \<Rightarrow> 'k::linorder"
  assumes "\<forall>y \<in> set ys. (cmp x y < 0) = (key x < key y)" and "sorted (map key ys)"
  shows "sorted (map key (insert_sorted cmp x ys))"
  using assms
proof (induction ys)
  case Nil
  then show ?case by simp
next
  case (Cons y ys)
  have "set (insert_sorted cmp x ys) = insert x (set ys)"
    using mset_insert_sorted [of cmp x ys] by (metis set_mset_add_mset_insert set_mset_mset)
  with Cons show ?case by (auto simp: not_less)
qed

lemma sorted_foldl_insert_sorted:
  fixes key :: "'a \<Rightarrow> 'k::linorder"
  assumes "\<forall>x \<in> set acc \<union> set rows. \<forall>y \<in> set acc \<union> set rows. (cmp x y < 0) = (key x < key y)"
    and "sorted (map key acc)"
  shows "sorted (map key (foldl (\<lambda>acc r. insert_sorted cmp r acc) acc rows))"
  using assms
proof (induction rows arbitrary: acc)
  case Nil
  then show ?case by simp
next
  case (Cons r rows)
  have s: "set (insert_sorted cmp r acc) = insert r (set acc)"
    using mset_insert_sorted [of cmp r acc] by (metis set_mset_add_mset_insert set_mset_mset)
  have "sorted (map key (insert_sorted cmp r acc))"
    using Cons.prems by (intro sorted_insert_sorted) auto
  moreover have "\<forall>x \<in> set (insert_sorted cmp r acc) \<union> set rows.
        \<forall>y \<in> set (insert_sorted cmp r acc) \<union> set rows. (cmp x y < 0) = (key x < key y)"
    using Cons.prems(1) s by auto
  ultimately show ?case
    using Cons.IH [of "insert_sorted cmp r acc"] by simp
qed

lemma sorted_list_box_sort:
  fixes key :: "'a \<Rightarrow> 'k::linorder"
  assumes "\<forall>x \<in> set rows. \<forall>y \<in> set rows. (cmp x y < 0) = (key x < key y)"
  shows "sorted (map key (list_box_sort cmp rows))"
  unfolding list_box_sort_def
  using assms by (intro sorted_foldl_insert_sorted) auto

lemma of_char_pos: "c \<noteq> CHR 0x00 \<Longrightarrow> 0 < (of_char c :: nat)"
proof -
  assume "c \<noteq> CHR 0x00"
  then have "(of_char c :: nat) \<noteq> of_char (CHR 0x00)"
    by (simp only: of_char_eq_iff) simp
  then show ?thesis by simp
qed

lemma strcasecmp_bytes_less:
  assumes "CHR 0x00 \<notin> set a" "CHR 0x00 \<notin> set b"
  shows "(strcasecmp_bytes a b < 0) = (map g_ascii_tolower a < map g_ascii_tolower b)"
  using assms
proof (induction a b rule: strcasecmp_bytes.induct)
  case (2 b bs)
  then have "0 < (of_char b :: nat)" by (intro of_char_pos) auto
  then show ?case by simp
next
  case (3 a as)
  then show ?case by simp
qed (auto simp: Let_def)

lemma c_str_no_nul: "CHR 0x00 \<notin> set (c_str s)"
  unfolding c_str_def by (induction s) auto

lemma g_ascii_strcasecmp_less:
  "(g_ascii_strcasecmp s1 s2 < 0) = (map g_ascii_tolower (c_str s1) < map g_ascii_tolower (c_str s2))"
  unfolding g_ascii_strcasecmp_def by (rule strcasecmp_bytes_less) (rule c_str_no_nul)+

lemma strcasecmp_bytes_flip: "strcasecmp_bytes b a = - strcasecmp_bytes a b"
  by (induction a b rule: strcasecmp_bytes.induct) (auto simp: Let_def)

lemma g_ascii_strcasecmp_le:
  "(g_ascii_strcasecmp s1 s2 \<le> 0) = (map g_ascii_tolower (c_str s1) \<le> map g_ascii_tolower (c_str s2))"
proof -
  have "(g_ascii_strcasecmp s1 s2 \<le> 0) = (\<not> g_ascii_strcasecmp s2 s1 < 0)"
    unfolding g_ascii_strcasecmp_def using strcasecmp_bytes_flip [of "c_str s2" "c_str s1"] by auto
  then show ?thesis by (simp add: g_ascii_strcasecmp_less not_less)
qed

lemma sort_func_insertion_key:
  "project_mem s x = Some p1 \<Longrightarrow> project_mem s y = Some p2 \<Longrightarrow>
   (sort_func_insertion s x y < 0) =
   (insert_order (row_project s x) < insert_order (row_project s y))"
  by (simp add: sort_func_insertion_def row_project_def)

lemma sort_func_alpha_key:
  "project_mem s x = Some p1 \<Longrightarrow> project_mem s y = Some p2 \<Longrightarrow>
   (sort_func_alpha s x y < 0) =
   (map g_ascii_tolower (c_str (name (row_project s x)))
      < map g_ascii_tolower (c_str (name (row_project s y))))"
  by (simp add: sort_func_alpha_def row_project_def g_ascii_strcasecmp_less)

lemma sort_func_mru_key:
  "project_mem s x = Some p1 \<Longrightarrow> project_mem s y = Some p2 \<Longrightarrow>
   (sort_func_mru s x y < 0) = (- last_used (row_project s x) < - last_used (row_project s y))"
  by (simp add: sort_func_mru_def row_project_def)

text \<open>
  \<^bold>\<open>C4\<close> (sort engine). When every sidebar row carries a project, \<^verbatim>\<open>apply_sort\<close> leaves
  the rows ordered by the callback of the current mode: by ascending \<open>insert_order\<close> in
  manual mode, by \<^verbatim>\<open>g_ascii_strcasecmp\<close> of the names (ASCII case-insensitive) in
  alphabetical mode, by descending \<open>last_used\<close> in MRU mode. The rows are the same rows,
  and no project is changed: \<open>insert_order\<close>, \<open>name\<close> and \<open>last_used\<close> of every
  project are what they were, as are the project list and the sort mode.
\<close>

theorem sort_engine:
  assumes rows: "\<forall>row \<in> set (sidebar_rows s). project_mem s row \<noteq> None"
  shows "(sort_mode s = SORT_NONE \<longrightarrow>
            sorted_wrt (\<lambda>a b. insert_order (row_project s a) \<le> insert_order (row_project s b))
              (sidebar_rows (apply_sort s))) \<and>
         (sort_mode s = SORT_ALPHA \<longrightarrow>
            sorted_wrt (\<lambda>a b. g_ascii_strcasecmp (name (row_project s a))
                                  (name (row_project s b)) \<le> 0)
              (sidebar_rows (apply_sort s))) \<and>
         (sort_mode s = SORT_MRU \<longrightarrow>
            sorted_wrt (\<lambda>a b. last_used (row_project s a) \<ge> last_used (row_project s b))
              (sidebar_rows (apply_sort s))) \<and>
         mset (sidebar_rows (apply_sort s)) = mset (sidebar_rows s) \<and>
         project_mem (apply_sort s) = project_mem s \<and>
         projects (apply_sort s) = projects s \<and>
         sort_mode (apply_sort s) = sort_mode s"
proof -
  have alloc: "\<exists>p. project_mem s x = Some p" if "x \<in> set (sidebar_rows s)" for x
    using rows that by auto
  have manual: "sorted (map (\<lambda>r. insert_order (row_project s r))
                  (list_box_sort (sort_func_insertion s) (sidebar_rows s)))"
    by (rule sorted_list_box_sort) (meson alloc sort_func_insertion_key)
  have alpha: "sorted (map (\<lambda>r. map g_ascii_tolower (c_str (name (row_project s r))))
                  (list_box_sort (sort_func_alpha s) (sidebar_rows s)))"
    by (rule sorted_list_box_sort) (meson alloc sort_func_alpha_key)
  have mru: "sorted (map (\<lambda>r. - last_used (row_project s r))
                  (list_box_sort (sort_func_mru s) (sidebar_rows s)))"
    by (rule sorted_list_box_sort) (meson alloc sort_func_mru_key)
  show ?thesis
    using manual alpha mru
    by (simp add: apply_sort_def sort_callback_def mset_list_box_sort sorted_map
                  g_ascii_strcasecmp_le)
qed

text \<open>The examples of the specification, and two comparisons that differ in case only.\<close>

theorem sort_engine_witness:
  "map (\<lambda>r. insert_order (row_project (three_projects SORT_NONE) r))
     (sidebar_rows (apply_sort (three_projects SORT_NONE))) = [0, 1, 2] \<and>
   map (\<lambda>r. name (row_project (three_projects SORT_ALPHA) r))
     (sidebar_rows (apply_sort (three_projects SORT_ALPHA))) = [''apple'', ''banana'', ''cherry''] \<and>
   map (\<lambda>r. last_used (row_project (three_projects SORT_MRU) r))
     (sidebar_rows (apply_sort (three_projects SORT_MRU))) = [30, 20, 10] \<and>
   g_ascii_strcasecmp ''Apple'' ''banana'' < 0 \<and>
   g_ascii_strcasecmp ''CHERRY'' ''cherry'' = 0 \<and>
   sorted_wrt (\<lambda>a b. insert_order (row_project (three_projects SORT_NONE) a)
                    \<le> insert_order (row_project (three_projects SORT_NONE) b))
     (sidebar_rows (apply_sort (three_projects SORT_NONE))) \<and>
   project_mem (apply_sort (three_projects SORT_MRU)) = project_mem (three_projects SORT_MRU)"
proof -
  have rows: "\<forall>row \<in> set (sidebar_rows (three_projects m)).
                project_mem (three_projects m) row \<noteq> None" for m
    by (simp add: three_projects_def fresh_app_def)
  have 1: "map (\<lambda>r. insert_order (row_project (three_projects SORT_NONE) r))
     (sidebar_rows (apply_sort (three_projects SORT_NONE))) = [0, 1, 2]"
    by code_simp
  have 2: "map (\<lambda>r. name (row_project (three_projects SORT_ALPHA) r))
     (sidebar_rows (apply_sort (three_projects SORT_ALPHA))) = [''apple'', ''banana'', ''cherry'']"
    by code_simp
  have 3: "map (\<lambda>r. last_used (row_project (three_projects SORT_MRU) r))
     (sidebar_rows (apply_sort (three_projects SORT_MRU))) = [30, 20, 10]"
    by code_simp
  have 4: "g_ascii_strcasecmp ''Apple'' ''banana'' < 0"
    and 5: "g_ascii_strcasecmp ''CHERRY'' ''cherry'' = 0"
    by code_simp+
  have m: "sort_mode (three_projects m) = m" for m
    by (simp add: three_projects_def fresh_app_def)
  show ?thesis
    using sort_engine [OF rows [of SORT_NONE]] sort_engine [OF rows [of SORT_MRU]] 1 2 3 4 5 m
    by simp
qed

subsection \<open>The heap invariant under the elementary updates\<close>

lemma heap_invI:
  assumes "distinct ps"
    and "\<And>p. (p \<in> set ps) = (pm p \<noteq> None)"
    and "\<And>p P. pm p = Some P \<Longrightarrow> subtabs_ok sm p P"
    and "\<And>st S. sm st = Some S \<Longrightarrow> \<exists>P. pm (parent_tab S) = Some P \<and> st \<in> set (subtabs P)"
    and "\<And>a. n \<le> a \<Longrightarrow> pm a = None \<and> sm a = None"
  shows "heap_inv ps pm sm n"
  using assms unfolding heap_inv_def by blast

lemma heap_inv_distinct: "heap_inv ps pm sm n \<Longrightarrow> distinct ps"
  and heap_inv_listed: "heap_inv ps pm sm n \<Longrightarrow> (p \<in> set ps) = (pm p \<noteq> None)"
  and heap_inv_subtabs: "heap_inv ps pm sm n \<Longrightarrow> pm p = Some P \<Longrightarrow> subtabs_ok sm p P"
  and heap_inv_parent:
    "heap_inv ps pm sm n \<Longrightarrow> sm st = Some S \<Longrightarrow>
     \<exists>P. pm (parent_tab S) = Some P \<and> st \<in> set (subtabs P)"
  and heap_inv_fresh: "heap_inv ps pm sm n \<Longrightarrow> n \<le> a \<Longrightarrow> pm a = None \<and> sm a = None"
  unfolding heap_inv_def by blast+

lemma subtabs_ok_member:
  "subtabs_ok sm p P \<Longrightarrow> st \<in> set (subtabs P) \<Longrightarrow> \<exists>S. sm st = Some S \<and> parent_tab S = p"
  unfolding subtabs_ok_def by blast

lemma subtabs_ok_perm:
  assumes "subtabs_ok sm p P" "mset (subtabs P') = mset (subtabs P)"
    "mset (tabs_box P') = mset (tabs_box P)"
  shows "subtabs_ok sm p P'"
proof -
  have "distinct (subtabs P') = distinct (subtabs P)"
    using assms(2) by (rule mset_eq_imp_distinct_iff)
  moreover have "set (subtabs P') = set (subtabs P)"
    using assms(2) by (rule mset_eq_setD)
  ultimately show ?thesis
    using assms unfolding subtabs_ok_def by simp
qed

lemma subtabs_ok_mono:
  assumes "subtabs_ok sm p P" "\<And>st S. sm st = Some S \<Longrightarrow> \<exists>S'. sm' st = Some S' \<and> parent_tab S' = parent_tab S"
  shows "subtabs_ok sm' p P"
  using assms unfolding subtabs_ok_def by metis

lemma heap_inv_update_project:
  assumes h: "heap_inv ps pm sm n" and p: "pm p = Some P"
    and "mset (subtabs P') = mset (subtabs P)" "mset (tabs_box P') = mset (tabs_box P)"
  shows "heap_inv ps (pm(p \<mapsto> P')) sm n"
proof (rule heap_invI)
  show "distinct ps" using h by (rule heap_inv_distinct)
  show "(q \<in> set ps) = ((pm(p \<mapsto> P')) q \<noteq> None)" for q
    using heap_inv_listed [OF h, of q] heap_inv_listed [OF h, of p] p by simp
  show "subtabs_ok sm q Q" if "(pm(p \<mapsto> P')) q = Some Q" for q Q
  proof (cases "q = p")
    case True
    with that have "Q = P'" by simp
    with True subtabs_ok_perm [OF heap_inv_subtabs [OF h p] assms(3,4)] show ?thesis by simp
  next
    case False
    with that show ?thesis using heap_inv_subtabs [OF h] by simp
  qed
  show "\<exists>Q. (pm(p \<mapsto> P')) (parent_tab S) = Some Q \<and> st \<in> set (subtabs Q)"
    if alloc: "sm st = Some S" for st S
  proof -
    obtain Q where Q: "pm (parent_tab S) = Some Q" "st \<in> set (subtabs Q)"
      using heap_inv_parent [OF h alloc] by blast
    show ?thesis
    proof (cases "parent_tab S = p")
      case True
      with Q p have "Q = P" by simp
      with Q have "st \<in> set (subtabs P')" using mset_eq_setD [OF assms(3)] by simp
      with True show ?thesis by simp
    next
      case False
      with Q show ?thesis by simp
    qed
  qed
  show "(pm(p \<mapsto> P')) a = None \<and> sm a = None" if "n \<le> a" for a
    using heap_inv_fresh [OF h that] heap_inv_fresh [OF h, of p] p
    by (cases "a = p") auto
qed

lemma heap_inv_update_subtab:
  assumes h: "heap_inv ps pm sm n" and st: "sm st = Some S" and "parent_tab S' = parent_tab S"
  shows "heap_inv ps pm (sm(st \<mapsto> S')) n"
proof (rule heap_invI)
  show "distinct ps" using h by (rule heap_inv_distinct)
  show "(q \<in> set ps) = (pm q \<noteq> None)" for q
    using h by (rule heap_inv_listed)
  show "subtabs_ok (sm(st \<mapsto> S')) q Q" if "pm q = Some Q" for q Q
    using heap_inv_subtabs [OF h that] st assms(3)
    by (rule_tac subtabs_ok_mono) (auto split: if_splits)
  show "\<exists>Q. pm (parent_tab T) = Some Q \<and> x \<in> set (subtabs Q)"
    if "(sm(st \<mapsto> S')) x = Some T" for x T
  proof (cases "x = st")
    case True
    with that have "T = S'" by simp
    with True heap_inv_parent [OF h st] assms(3) show ?thesis by simp
  next
    case False
    with that heap_inv_parent [OF h, of x T] show ?thesis by simp
  qed
  show "pm a = None \<and> (sm(st \<mapsto> S')) a = None" if "n \<le> a" for a
    using heap_inv_fresh [OF h that] heap_inv_fresh [OF h, of st] st
    by (cases "a = st") auto
qed

lemma heap_inv_add_subtab:
  assumes h: "heap_inv ps pm sm n" and p: "pm p = Some P"
    and sub: "subtabs P' = subtabs P @ [n]"
    and box: "mset (tabs_box P') = add_mset n (mset (tabs_box P))"
    and par: "parent_tab S = p"
  shows "heap_inv ps (pm(p \<mapsto> P')) (sm(n \<mapsto> S)) (Suc n)"
proof (rule heap_invI)
  have fresh: "pm n = None" "sm n = None"
    using heap_inv_fresh [OF h, of n] by auto
  have pn: "p \<noteq> n" using p fresh by auto
  have notin: "n \<notin> set (subtabs Q)" if "pm q = Some Q" for q Q
    using subtabs_ok_member [OF heap_inv_subtabs [OF h that], of n] fresh by auto
  show "distinct ps" using h by (rule heap_inv_distinct)
  show "(q \<in> set ps) = ((pm(p \<mapsto> P')) q \<noteq> None)" for q
    using heap_inv_listed [OF h, of q] heap_inv_listed [OF h, of p] p by simp
  show "subtabs_ok (sm(n \<mapsto> S)) q Q" if Q: "(pm(p \<mapsto> P')) q = Some Q" for q Q
  proof (cases "q = p")
    case True
    with Q have QP: "Q = P'" by simp
    have ok: "subtabs_ok sm p P" using h p by (rule heap_inv_subtabs)
    have "distinct (subtabs P')"
      using ok notin [OF p] sub unfolding subtabs_ok_def by simp
    moreover have "mset (tabs_box P') = mset (subtabs P')"
      using ok sub box unfolding subtabs_ok_def by simp
    moreover have "\<exists>T. (sm(n \<mapsto> S)) st = Some T \<and> parent_tab T = p"
      if "st \<in> set (subtabs P')" for st
      using that sub par subtabs_ok_member [OF ok, of st] by (cases "st = n") auto
    ultimately show ?thesis
      using True QP unfolding subtabs_ok_def by blast
  next
    case False
    with Q have q: "pm q = Some Q" by simp
    have "\<exists>T. (sm(n \<mapsto> S)) st = Some T \<and> parent_tab T = q" if "st \<in> set (subtabs Q)" for st
      using that notin [OF q] subtabs_ok_member [OF heap_inv_subtabs [OF h q], of st]
      by (cases "st = n") auto
    then show ?thesis
      using heap_inv_subtabs [OF h q] unfolding subtabs_ok_def by blast
  qed
  show "\<exists>Q. (pm(p \<mapsto> P')) (parent_tab T) = Some Q \<and> st \<in> set (subtabs Q)"
    if T: "(sm(n \<mapsto> S)) st = Some T" for st T
  proof (cases "st = n")
    case True
    with T par sub show ?thesis by simp
  next
    case False
    with T have alloc: "sm st = Some T" by simp
    obtain Q where Q: "pm (parent_tab T) = Some Q" "st \<in> set (subtabs Q)"
      using heap_inv_parent [OF h alloc] by blast
    show ?thesis
    proof (cases "parent_tab T = p")
      case True
      with Q p sub show ?thesis by simp
    next
      case False
      with Q show ?thesis by simp
    qed
  qed
  show "(pm(p \<mapsto> P')) a = None \<and> (sm(n \<mapsto> S)) a = None" if "Suc n \<le> a" for a
  proof -
    have "n \<le> a" "a \<noteq> n" using that by auto
    moreover have "a \<noteq> p" using heap_inv_fresh [OF h \<open>n \<le> a\<close>] p by auto
    ultimately show ?thesis using heap_inv_fresh [OF h, of a] by simp
  qed
qed

lemma heap_inv_remove_subtab:
  assumes h: "heap_inv ps pm sm n" and p: "pm p = Some P" and st: "sm st = Some S"
    and par: "parent_tab S = p"
    and sub: "subtabs P' = remove1 st (subtabs P)"
    and box: "tabs_box P' = remove1 st (tabs_box P)"
  shows "heap_inv ps (pm(p \<mapsto> P')) (sm(st := None)) n"
proof (rule heap_invI)
  have ok: "subtabs_ok sm p P" using h p by (rule heap_inv_subtabs)
  have other: "st \<notin> set (subtabs Q)" if "pm q = Some Q" "q \<noteq> p" for q Q
    using subtabs_ok_member [OF heap_inv_subtabs [OF h that(1)], of st] st par that(2) by auto
  show "distinct ps" using h by (rule heap_inv_distinct)
  show "(q \<in> set ps) = ((pm(p \<mapsto> P')) q \<noteq> None)" for q
    using heap_inv_listed [OF h, of q] heap_inv_listed [OF h, of p] p by simp
  show "subtabs_ok (sm(st := None)) q Q" if Q: "(pm(p \<mapsto> P')) q = Some Q" for q Q
  proof (cases "q = p")
    case True
    with Q have QP: "Q = P'" by simp
    have d: "distinct (subtabs P)" using ok unfolding subtabs_ok_def by simp
    have "distinct (subtabs P')" using d sub by simp
    moreover have "mset (tabs_box P') = mset (subtabs P')"
      using ok sub box unfolding subtabs_ok_def by simp
    moreover have "\<exists>T. (sm(st := None)) x = Some T \<and> parent_tab T = p"
      if "x \<in> set (subtabs P')" for x
    proof -
      have "x \<in> set (subtabs P)" "x \<noteq> st" using that sub d by auto
      then show ?thesis using subtabs_ok_member [OF ok, of x] by simp
    qed
    ultimately show ?thesis
      using True QP unfolding subtabs_ok_def by blast
  next
    case False
    with Q have q: "pm q = Some Q" by simp
    have "\<exists>T. (sm(st := None)) x = Some T \<and> parent_tab T = q" if "x \<in> set (subtabs Q)" for x
    proof -
      have "x \<noteq> st" using that other [OF q False] by auto
      then show ?thesis using subtabs_ok_member [OF heap_inv_subtabs [OF h q] that] by simp
    qed
    then show ?thesis
      using heap_inv_subtabs [OF h q] unfolding subtabs_ok_def by blast
  qed
  show "\<exists>Q. (pm(p \<mapsto> P')) (parent_tab T) = Some Q \<and> x \<in> set (subtabs Q)"
    if T: "(sm(st := None)) x = Some T" for x T
  proof -
    from T have x: "x \<noteq> st" and alloc: "sm x = Some T" by (auto split: if_splits)
    obtain Q where Q: "pm (parent_tab T) = Some Q" "x \<in> set (subtabs Q)"
      using heap_inv_parent [OF h alloc] by blast
    show ?thesis
    proof (cases "parent_tab T = p")
      case True
      with Q p have "Q = P" by simp
      with Q x sub True show ?thesis by simp
    next
      case False
      with Q show ?thesis by simp
    qed
  qed
  show "(pm(p \<mapsto> P')) a = None \<and> (sm(st := None)) a = None" if "n \<le> a" for a
    using heap_inv_fresh [OF h that] heap_inv_fresh [OF h, of p] p
    by (cases "a = p") auto
qed

lemma heap_inv_add_project:
  assumes h: "heap_inv ps pm sm n" and "subtabs P = []" "tabs_box P = []"
  shows "heap_inv (ps @ [n]) (pm(n \<mapsto> P)) sm (Suc n)"
proof (rule heap_invI)
  have fresh: "pm n = None" "sm n = None"
    using heap_inv_fresh [OF h, of n] by auto
  have notin: "n \<notin> set ps" using heap_inv_listed [OF h, of n] fresh by simp
  show "distinct (ps @ [n])" using heap_inv_distinct [OF h] notin by simp
  show "(q \<in> set (ps @ [n])) = ((pm(n \<mapsto> P)) q \<noteq> None)" for q
    using heap_inv_listed [OF h, of q] by auto
  show "subtabs_ok sm q Q" if Q: "(pm(n \<mapsto> P)) q = Some Q" for q Q
  proof (cases "q = n")
    case True
    with Q assms(2,3) show ?thesis unfolding subtabs_ok_def by simp
  next
    case False
    with Q show ?thesis using heap_inv_subtabs [OF h] by simp
  qed
  show "\<exists>Q. (pm(n \<mapsto> P)) (parent_tab T) = Some Q \<and> st \<in> set (subtabs Q)"
    if T: "sm st = Some T" for st T
  proof -
    obtain Q where Q: "pm (parent_tab T) = Some Q" "st \<in> set (subtabs Q)"
      using heap_inv_parent [OF h T] by blast
    then have "parent_tab T \<noteq> n" using fresh by auto
    with Q show ?thesis by simp
  qed
  show "(pm(n \<mapsto> P)) a = None \<and> sm a = None" if "Suc n \<le> a" for a
    using heap_inv_fresh [OF h, of a] that by simp
qed

lemma heap_inv_remove_project:
  assumes h: "heap_inv ps pm sm n" and p: "pm p = Some P"
  shows "heap_inv (remove1 p ps) (pm(p := None))
           (\<lambda>a. if a \<in> set (subtabs P) then None else sm a) n"
proof (rule heap_invI)
  have d: "distinct ps" using h by (rule heap_inv_distinct)
  show "distinct (remove1 p ps)" using d by simp
  show "(q \<in> set (remove1 p ps)) = ((pm(p := None)) q \<noteq> None)" for q
    using heap_inv_listed [OF h, of q] d by auto
  have other: "st \<notin> set (subtabs P)" if "pm q = Some Q" "q \<noteq> p" "st \<in> set (subtabs Q)" for q Q st
    using subtabs_ok_member [OF heap_inv_subtabs [OF h that(1)] that(3)]
          subtabs_ok_member [OF heap_inv_subtabs [OF h p], of st] that(2) by auto
  show "subtabs_ok (\<lambda>a. if a \<in> set (subtabs P) then None else sm a) q Q"
    if Q: "(pm(p := None)) q = Some Q" for q Q
  proof -
    from Q have q: "q \<noteq> p" "pm q = Some Q" by (auto split: if_splits)
    have "\<exists>T. (if st \<in> set (subtabs P) then None else sm st) = Some T \<and> parent_tab T = q"
      if "st \<in> set (subtabs Q)" for st
      using other [OF q(2) q(1) that] subtabs_ok_member [OF heap_inv_subtabs [OF h q(2)] that]
      by simp
    then show ?thesis
      using heap_inv_subtabs [OF h q(2)] unfolding subtabs_ok_def by blast
  qed
  show "\<exists>Q. (pm(p := None)) (parent_tab T) = Some Q \<and> st \<in> set (subtabs Q)"
    if T: "(if st \<in> set (subtabs P) then None else sm st) = Some T" for st T
  proof -
    from T have st: "st \<notin> set (subtabs P)" "sm st = Some T" by (auto split: if_splits)
    obtain Q where Q: "pm (parent_tab T) = Some Q" "st \<in> set (subtabs Q)"
      using heap_inv_parent [OF h st(2)] by blast
    then have "parent_tab T \<noteq> p" using st(1) p by auto
    with Q show ?thesis by simp
  qed
  show "(pm(p := None)) a = None \<and> (if a \<in> set (subtabs P) then None else sm a) = None"
    if "n \<le> a" for a
    using heap_inv_fresh [OF h that] by simp
qed

subsection \<open>What the elementary operations change\<close>

lemma heap_ok_cong:
  "projects s' = projects s \<Longrightarrow> project_mem s' = project_mem s \<Longrightarrow>
   subtab_mem s' = subtab_mem s \<Longrightarrow> next_ptr s' = next_ptr s \<Longrightarrow> heap_ok s' = heap_ok s"
  by (simp add: heap_ok_def)

lemma lifecycle_ok_cong:
  "project_mem s' = project_mem s \<Longrightarrow> lifecycle_ok s' = lifecycle_ok s"
  by (simp add: lifecycle_ok_def)

lemma fault_fields [simp]:
  "projects (fault s) = projects s" "project_mem (fault s) = project_mem s"
  "subtab_mem (fault s) = subtab_mem s" "next_ptr (fault s) = next_ptr s"
  "active_project (fault s) = active_project s" "sort_mode (fault s) = sort_mode s"
  "spawned (fault s) = spawned s" "saves (fault s) = saves s" "freed (fault s) = freed s"
  "selected_row (fault s) = selected_row s" "real_time (fault s) = real_time s"
  "session_json (fault s) = session_json s" "sidebar_rows (fault s) = sidebar_rows s"
  "sort_func (fault s) = sort_func s"
  by (simp_all add: fault_def)

lemma save_session_fields [simp]:
  "projects (save_session s) = projects s" "project_mem (save_session s) = project_mem s"
  "subtab_mem (save_session s) = subtab_mem s" "next_ptr (save_session s) = next_ptr s"
  "active_project (save_session s) = active_project s" "sort_mode (save_session s) = sort_mode s"
  "spawned (save_session s) = spawned s" "freed (save_session s) = freed s"
  "selected_row (save_session s) = selected_row s" "real_time (save_session s) = real_time s"
  "sidebar_rows (save_session s) = sidebar_rows s" "sort_func (save_session s) = sort_func s"
  by (simp_all add: save_session_def split: option.splits)

lemma update_project_fields [simp]:
  "projects (update_project p f s) = projects s"
  "subtab_mem (update_project p f s) = subtab_mem s" "next_ptr (update_project p f s) = next_ptr s"
  "active_project (update_project p f s) = active_project s"
  "sort_mode (update_project p f s) = sort_mode s"
  "spawned (update_project p f s) = spawned s" "saves (update_project p f s) = saves s"
  "freed (update_project p f s) = freed s"
  "selected_row (update_project p f s) = selected_row s"
  "real_time (update_project p f s) = real_time s"
  "session_json (update_project p f s) = session_json s"
  "sidebar_rows (update_project p f s) = sidebar_rows s"
  "sort_func (update_project p f s) = sort_func s"
  by (simp_all add: update_project_def split: option.splits)

lemma update_project_mem:
  "project_mem (update_project p f s) =
     (case project_mem s p of None \<Rightarrow> project_mem s | Some P \<Rightarrow> (project_mem s)(p \<mapsto> f P))"
  by (simp add: update_project_def split: option.splits)

lemma update_project_Some:
  "project_mem s p = Some P \<Longrightarrow>
   update_project p f s = s\<lparr>project_mem := (project_mem s)(p \<mapsto> f P)\<rparr>"
  by (simp add: update_project_def)

lemma update_subtab_fields [simp]:
  "projects (update_subtab st f s) = projects s"
  "project_mem (update_subtab st f s) = project_mem s"
  "next_ptr (update_subtab st f s) = next_ptr s"
  "active_project (update_subtab st f s) = active_project s"
  "sort_mode (update_subtab st f s) = sort_mode s"
  "spawned (update_subtab st f s) = spawned s" "saves (update_subtab st f s) = saves s"
  "freed (update_subtab st f s) = freed s"
  "selected_row (update_subtab st f s) = selected_row s"
  "real_time (update_subtab st f s) = real_time s"
  "session_json (update_subtab st f s) = session_json s"
  "sidebar_rows (update_subtab st f s) = sidebar_rows s"
  "sort_func (update_subtab st f s) = sort_func s"
  by (simp_all add: update_subtab_def split: option.splits)

lemma heap_ok_fault [simp]: "heap_ok (fault s) = heap_ok s"
  by (simp add: heap_ok_def)

lemma heap_ok_save_session [simp]: "heap_ok (save_session s) = heap_ok s"
  by (simp add: heap_ok_def)

lemma lifecycle_ok_fault [simp]: "lifecycle_ok (fault s) = lifecycle_ok s"
  by (simp add: lifecycle_ok_def)

lemma lifecycle_ok_save_session [simp]: "lifecycle_ok (save_session s) = lifecycle_ok s"
  by (simp add: lifecycle_ok_def)

lemma heap_ok_update_project:
  assumes "heap_ok s"
    and "\<And>P. project_mem s p = Some P \<Longrightarrow>
           mset (subtabs (f P)) = mset (subtabs P) \<and> mset (tabs_box (f P)) = mset (tabs_box P)"
  shows "heap_ok (update_project p f s)"
proof (cases "project_mem s p")
  case None
  then show ?thesis using assms(1) by (simp add: update_project_def)
next
  case (Some P)
  then show ?thesis
    using heap_inv_update_project [of "projects s" "project_mem s" "subtab_mem s" "next_ptr s" p P "f P"]
          assms
    by (simp add: update_project_Some heap_ok_def)
qed

lemma heap_ok_update_subtab:
  assumes "heap_ok s"
    and "\<And>S. subtab_mem s st = Some S \<Longrightarrow> parent_tab (f S) = parent_tab S"
  shows "heap_ok (update_subtab st f s)"
proof (cases "subtab_mem s st")
  case None
  then show ?thesis using assms(1) by (simp add: update_subtab_def)
next
  case (Some S)
  then show ?thesis
    using heap_inv_update_subtab [of "projects s" "project_mem s" "subtab_mem s" "next_ptr s" st S "f S"]
          assms
    by (simp add: update_subtab_def heap_ok_def)
qed

lemma heap_ok_on_subtab_button_clicked:
  "heap_ok s \<Longrightarrow> heap_ok (on_subtab_button_clicked st s)"
  by (auto simp: on_subtab_button_clicked_def intro: heap_ok_update_project split: option.splits)

lemma create_subtab_Some:
  assumes "project_mem s p = Some P"
  shows "create_subtab p nm wd s =
           s\<lparr>subtab_mem := (subtab_mem s)(next_ptr s \<mapsto> new_subtab p nm),
             next_ptr := Suc (next_ptr s),
             spawned := spawned s @ [wd],
             project_mem := (project_mem s)(p \<mapsto>
               P\<lparr>tabs_box := tabs_box P @ [next_ptr s],
                 subtabs := subtabs P @ [next_ptr s],
                 active_subtab := Some (next_ptr s)\<rparr>)\<rparr>"
  using assms
  by (simp add: create_subtab_def on_subtab_button_clicked_def update_project_def new_subtab_def
                Let_def)

lemma create_subtab_None:
  "project_mem s p = None \<Longrightarrow> create_subtab p nm wd s = fault s"
  by (simp add: create_subtab_def)

lemma heap_ok_create_subtab:
  assumes "heap_ok s"
  shows "heap_ok (create_subtab p nm wd s)"
proof (cases "project_mem s p")
  case None
  then show ?thesis using assms by (simp add: create_subtab_None)
next
  case (Some P)
  show ?thesis
    using heap_inv_add_subtab [of "projects s" "project_mem s" "subtab_mem s" "next_ptr s" p P
             "P\<lparr>tabs_box := tabs_box P @ [next_ptr s], subtabs := subtabs P @ [next_ptr s],
                 active_subtab := Some (next_ptr s)\<rparr>" "new_subtab p nm"]
          assms Some
    by (simp add: create_subtab_Some [OF Some] heap_ok_def new_subtab_def)
qed

lemma restore_saved_subtabs_Some:
  assumes "project_mem s p = Some P"
  shows "restore_saved_subtabs p svs s =
           s\<lparr>subtab_mem := (\<lambda>a. if next_ptr s \<le> a \<and> a < next_ptr s + length svs
                                then Some (new_subtab p (saved_name (svs ! (a - next_ptr s))))
                                else subtab_mem s a),
             next_ptr := next_ptr s + length svs,
             spawned := spawned s @ map working_dir svs,
             project_mem := (project_mem s)(p \<mapsto>
               P\<lparr>tabs_box := tabs_box P @ [next_ptr s ..< next_ptr s + length svs],
                 subtabs := subtabs P @ [next_ptr s ..< next_ptr s + length svs],
                 active_subtab := (if svs = [] then active_subtab P
                                   else Some (next_ptr s + length svs - 1))\<rparr>)\<rparr>"
  using assms
proof (induction svs arbitrary: s P)
  case Nil
  have e1: "(\<lambda>a. if next_ptr s \<le> a \<and> a < next_ptr s then X a else subtab_mem s a) = subtab_mem s"
    for X by (rule ext) auto
  have e2: "(project_mem s)(p \<mapsto> P) = project_mem s"
    using Nil by (rule fun_upd_idem)
  have e3: "P\<lparr>tabs_box := tabs_box P, subtabs := subtabs P, active_subtab := active_subtab P\<rparr> = P"
    by simp
  show ?case by (simp add: e1 e2 del: fun_upd_apply)
next
  case (Cons sv r)
  let ?n = "next_ptr s"
  let ?P1 = "P\<lparr>tabs_box := tabs_box P @ [?n], subtabs := subtabs P @ [?n],
                 active_subtab := Some ?n\<rparr>"
  let ?s1 = "create_subtab p (saved_name sv) (working_dir sv) s"
  have s1: "?s1 = s\<lparr>subtab_mem := (subtab_mem s)(?n \<mapsto> new_subtab p (saved_name sv)),
             next_ptr := Suc ?n, spawned := spawned s @ [working_dir sv],
             project_mem := (project_mem s)(p \<mapsto> ?P1)\<rparr>"
    using Cons.prems by (rule create_subtab_Some)
  have p1: "project_mem ?s1 p = Some ?P1" by (simp add: s1)
  have upt: "[?n ..< Suc (?n + length r)] = ?n # [Suc ?n ..< Suc (?n + length r)]"
    by (rule upt_conv_Cons) simp
  have sm: "(\<lambda>a. if Suc ?n \<le> a \<and> a < Suc (?n + length r)
               then Some (new_subtab p (saved_name (r ! (a - Suc ?n))))
               else if a = ?n then Some (new_subtab p (saved_name sv)) else subtab_mem s a) =
            (\<lambda>a. if ?n \<le> a \<and> a < Suc (?n + length r)
               then Some (new_subtab p (saved_name ((sv # r) ! (a - ?n))))
               else subtab_mem s a)"
    by (rule ext) (auto simp: nth_Cons' Suc_diff_le)
  have act: "(if r = [] then Some ?n else Some (?n + length r)) = Some (?n + length r)"
    by simp
  show ?case
  proof -
    have "restore_saved_subtabs p (sv # r) s = restore_saved_subtabs p r ?s1"
      by simp
    also have "\<dots> = ?s1\<lparr>subtab_mem := (\<lambda>a. if next_ptr ?s1 \<le> a \<and> a < next_ptr ?s1 + length r
                                then Some (new_subtab p (saved_name (r ! (a - next_ptr ?s1))))
                                else subtab_mem ?s1 a),
             next_ptr := next_ptr ?s1 + length r,
             spawned := spawned ?s1 @ map working_dir r,
             project_mem := (project_mem ?s1)(p \<mapsto>
               ?P1\<lparr>tabs_box := tabs_box ?P1 @ [next_ptr ?s1 ..< next_ptr ?s1 + length r],
                 subtabs := subtabs ?P1 @ [next_ptr ?s1 ..< next_ptr ?s1 + length r],
                 active_subtab := (if r = [] then active_subtab ?P1
                                   else Some (next_ptr ?s1 + length r - 1))\<rparr>)\<rparr>"
      by (rule Cons.IH [OF p1])
    also have "\<dots> = s\<lparr>subtab_mem := (\<lambda>a. if ?n \<le> a \<and> a < ?n + length (sv # r)
                                then Some (new_subtab p (saved_name ((sv # r) ! (a - ?n))))
                                else subtab_mem s a),
             next_ptr := ?n + length (sv # r),
             spawned := spawned s @ map working_dir (sv # r),
             project_mem := (project_mem s)(p \<mapsto>
               P\<lparr>tabs_box := tabs_box P @ [?n ..< ?n + length (sv # r)],
                 subtabs := subtabs P @ [?n ..< ?n + length (sv # r)],
                 active_subtab := (if sv # r = [] then active_subtab P
                                   else Some (?n + length (sv # r) - 1))\<rparr>)\<rparr>"
      by (simp add: s1 upt sm act del: upt_Suc split del: if_split cong: if_cong)
    finally show ?thesis .
  qed
qed

subsection \<open>Selecting a project\<close>

lemma g_list_index_from_found:
  "x \<in> set xs \<Longrightarrow>
   \<exists>k < length xs. g_list_index_from i xs x = i + int k \<and> xs ! k = x \<and> (\<forall>j < k. xs ! j \<noteq> x)"
proof (induction xs arbitrary: i)
  case Nil
  then show ?case by simp
next
  case (Cons y ys)
  show ?case
  proof (cases "y = x")
    case True
    then show ?thesis by (intro exI [of _ 0]) simp
  next
    case False
    with Cons.prems have "x \<in> set ys" by simp
    from Cons.IH [OF this, of "i + 1"] obtain k where
      k: "k < length ys" "g_list_index_from (i + 1) ys x = i + 1 + int k" "ys ! k = x"
         "\<forall>j < k. ys ! j \<noteq> x" by blast
    show ?thesis
    proof (intro exI [of _ "Suc k"] conjI allI impI)
      show "Suc k < length (y # ys)" using k(1) by simp
      show "g_list_index_from i (y # ys) x = i + int (Suc k)" using False k(2) by simp
      show "(y # ys) ! Suc k = x" using k(3) by simp
      show "(y # ys) ! j \<noteq> x" if "j < Suc k" for j
        using that False k(4) by (cases j) auto
    qed
  qed
qed

lemma g_list_index_from_missing: "x \<notin> set xs \<Longrightarrow> g_list_index_from i xs x = -1"
  by (induction xs arbitrary: i) auto

lemma g_list_index_nonneg: "(0 \<le> g_list_index xs x) = (x \<in> set xs)"
proof (cases "x \<in> set xs")
  case True
  then show ?thesis
    using g_list_index_from_found [of x xs 0] by (auto simp: g_list_index_def)
next
  case False
  then show ?thesis by (simp add: g_list_index_def g_list_index_from_missing)
qed

lemma g_list_index_nth:
  assumes "distinct xs" "k < length xs"
  shows "g_list_index xs (xs ! k) = int k"
proof -
  have "xs ! k \<in> set xs" using assms(2) by simp
  from g_list_index_from_found [OF this, of 0] obtain j where
    j: "j < length xs" "g_list_index_from 0 xs (xs ! k) = int j" "xs ! j = xs ! k" by auto
  then have "j = k" using assms by (simp add: nth_eq_iff_index_eq)
  with j show ?thesis by (simp add: g_list_index_def)
qed

lemma fun_upd_Some_cong: "A = B \<Longrightarrow> m(p \<mapsto> A) = m(p \<mapsto> B)"
  by simp

lemmas record_eqI = AppState.equality Project.equality SubTab.equality fun_upd_Some_cong

lemma on_project_selected_None [simp]: "on_project_selected None s = s"
  by (simp add: on_project_selected_def)

lemma on_project_selected_unlisted:
  "project_mem s p = Some P \<Longrightarrow> p \<notin> set (projects s) \<Longrightarrow> on_project_selected (Some p) s = s"
  using g_list_index_nonneg [of "projects s" p]
  by (simp add: on_project_selected_def Let_def)

lemma on_project_selected_initialized:
  assumes "project_mem s p = Some P" "p \<in> set (projects s)" "initialized P"
  shows "on_project_selected (Some p) s =
           s\<lparr>active_project := Some p,
             project_mem := (project_mem s)(p \<mapsto> P\<lparr>last_used := real_time s\<rparr>)\<rparr>"
  using assms g_list_index_nonneg [of "projects s" p]
  by (simp add: on_project_selected_def Let_def)

lemma on_project_selected_default:
  assumes "project_mem s p = Some P" "p \<in> set (projects s)" "\<not> initialized P"
    "saved_subtabs P = []"
  shows "on_project_selected (Some p) s =
           s\<lparr>active_project := Some p,
             subtab_mem := (subtab_mem s)(next_ptr s \<mapsto> new_subtab p ''Tab 1''),
             next_ptr := Suc (next_ptr s),
             spawned := spawned s @ [path P],
             project_mem := (project_mem s)(p \<mapsto>
               P\<lparr>last_used := real_time s,
                 tabs_box := tabs_box P @ [next_ptr s],
                 subtabs := subtabs P @ [next_ptr s],
                 active_subtab := Some (next_ptr s),
                 subtab_counter := 1,
                 initialized := True\<rparr>)\<rparr>"
proof -
  let ?s1 = "s\<lparr>active_project := Some p,
                project_mem := (project_mem s)(p \<mapsto> P\<lparr>last_used := real_time s\<rparr>)\<rparr>"
  have p1: "project_mem ?s1 p = Some (P\<lparr>last_used := real_time s\<rparr>)" by simp
  show ?thesis
    using assms g_list_index_nonneg [of "projects s" p]
    by (simp add: on_project_selected_def Let_def create_subtab_Some [OF p1] update_project_def)
qed

lemma on_project_selected_restore:
  assumes P: "project_mem s p = Some P" and listed: "p \<in> set (projects s)"
    and uninit: "\<not> initialized P" and saved: "saved_subtabs P \<noteq> []"
    and own: "\<forall>st \<in> set (subtabs P). st < next_ptr s \<and>
                (\<exists>S. subtab_mem s st = Some S \<and> parent_tab S = p)"
  shows "on_project_selected (Some p) s =
           s\<lparr>active_project := Some p,
             subtab_mem := (\<lambda>a. if next_ptr s \<le> a \<and> a < next_ptr s + length (saved_subtabs P)
                                then Some (new_subtab p
                                        (saved_name (saved_subtabs P ! (a - next_ptr s))))
                                else subtab_mem s a),
             next_ptr := next_ptr s + length (saved_subtabs P),
             spawned := spawned s @ map working_dir (saved_subtabs P),
             project_mem := (project_mem s)(p \<mapsto>
               P\<lparr>last_used := real_time s,
                 tabs_box := tabs_box P @
                   [next_ptr s ..< next_ptr s + length (saved_subtabs P)],
                 subtabs := subtabs P @
                   [next_ptr s ..< next_ptr s + length (saved_subtabs P)],
                 active_subtab :=
                   (case g_list_nth
                           (subtabs P @ [next_ptr s ..< next_ptr s + length (saved_subtabs P)])
                           (guint_of_int (saved_active_subtab P)) of
                      None \<Rightarrow> Some (next_ptr s + length (saved_subtabs P) - 1)
                    | Some a \<Rightarrow> Some a),
                 subtab_counter := int (length (saved_subtabs P)),
                 saved_subtabs := [],
                 initialized := True\<rparr>)\<rparr>"
proof -
  let ?n = "next_ptr s" and ?svs = "saved_subtabs P"
  let ?news = "[?n ..< ?n + length ?svs]"
  let ?sm = "\<lambda>a. if ?n \<le> a \<and> a < ?n + length ?svs
                 then Some (new_subtab p (saved_name (?svs ! (a - ?n))))
                 else subtab_mem s a"
  let ?P4 = "P\<lparr>last_used := real_time s, tabs_box := tabs_box P @ ?news,
               subtabs := subtabs P @ ?news,
               active_subtab := Some (?n + length ?svs - 1),
               subtab_counter := int (length ?svs)\<rparr>"
  define s1 where "s1 = s\<lparr>active_project := Some p,
                project_mem := (project_mem s)(p \<mapsto> P\<lparr>last_used := real_time s\<rparr>)\<rparr>"
  define s4 where "s4 = update_project p
      (\<lambda>Q. Q\<lparr>subtab_counter := int (length (saved_subtabs Q))\<rparr>)
      (restore_saved_subtabs p ?svs s1)"
  define s5 where "s5 = (case project_mem s4 p of
                           None \<Rightarrow> fault s4
                         | Some Q \<Rightarrow>
                             (case g_list_nth (subtabs Q) (guint_of_int (saved_active_subtab Q)) of
                                None \<Rightarrow> s4
                              | Some active_sub \<Rightarrow> on_subtab_button_clicked active_sub s4))"
  have unfold: "on_project_selected (Some p) s =
      update_project p (\<lambda>Q. Q\<lparr>initialized := True\<rparr>) (free_saved_subtabs p s5)"
    using P listed uninit saved g_list_index_nonneg [of "projects s" p]
    unfolding s5_def s4_def s1_def
    by (simp add: on_project_selected_def Let_def)
  have p1: "project_mem s1 p = Some (P\<lparr>last_used := real_time s\<rparr>)"
    by (simp add: s1_def)
  have s4: "s4 = s\<lparr>active_project := Some p, subtab_mem := ?sm,
                next_ptr := ?n + length ?svs,
                spawned := spawned s @ map working_dir ?svs,
                project_mem := (project_mem s)(p \<mapsto> ?P4)\<rparr>"
    using saved
    by (simp add: s4_def restore_saved_subtabs_Some [OF p1] update_project_def)
       (simp add: s1_def cong: if_cong)
  have p4: "project_mem s4 p = Some ?P4"
    by (simp add: s4)
  have click: "on_subtab_button_clicked a s4 =
                 s4\<lparr>project_mem := (project_mem s4)(p \<mapsto> ?P4\<lparr>active_subtab := Some a\<rparr>)\<rparr>"
    if "a \<in> set (subtabs P @ ?news)" for a
  proof -
    have "\<exists>S. ?sm a = Some S \<and> parent_tab S = p"
    proof (cases "a \<in> set (subtabs P)")
      case True
      with own show ?thesis by auto
    next
      case False
      with that show ?thesis by (auto simp: new_subtab_def)
    qed
    then have "\<exists>S. subtab_mem s4 a = Some S \<and> parent_tab S = p"
      by (simp add: s4)
    then show ?thesis
      using p4 by (auto simp: on_subtab_button_clicked_def update_project_def)
  qed
  let ?act = "case g_list_nth (subtabs P @ ?news) (guint_of_int (saved_active_subtab P)) of
                 None \<Rightarrow> Some (?n + length ?svs - 1)
               | Some a \<Rightarrow> Some a"
  have s5: "s5 = s\<lparr>active_project := Some p, subtab_mem := ?sm,
                next_ptr := ?n + length ?svs,
                spawned := spawned s @ map working_dir ?svs,
                project_mem := (project_mem s)(p \<mapsto> ?P4\<lparr>active_subtab := ?act\<rparr>)\<rparr>"
  proof (cases "g_list_nth (subtabs P @ ?news) (guint_of_int (saved_active_subtab P))")
    case None
    have "s5 = s4"
      using None p4 by (simp add: s5_def)
    then show ?thesis
      using None
      by (simp add: s4; ((intro record_eqI; simp)+)?)
  next
    case (Some a)
    then have "guint_of_int (saved_active_subtab P) < length (subtabs P @ ?news)"
      and "a = (subtabs P @ ?news) ! guint_of_int (saved_active_subtab P)"
      by (simp_all add: g_list_nth_def split: if_splits)
    then have "a \<in> set (subtabs P @ ?news)"
      using nth_mem by blast
    from click [OF this] Some p4
    have "s5 = s4\<lparr>project_mem := (project_mem s4)(p \<mapsto> ?P4\<lparr>active_subtab := Some a\<rparr>)\<rparr>"
      by (simp add: s5_def)
    then show ?thesis
      using Some
      by (simp add: s4; ((intro record_eqI; simp)+)?)
  qed
  show ?thesis
    unfolding unfold
    by (simp add: free_saved_subtabs_def update_project_def s5;
        ((intro record_eqI; simp)+)?)
qed

lemma heap_ok_restore_saved_subtabs:
  "heap_ok s \<Longrightarrow> heap_ok (restore_saved_subtabs p svs s)"
  by (induction svs arbitrary: s) (simp_all add: heap_ok_create_subtab)

lemma heap_ok_free_saved_subtabs:
  "heap_ok s \<Longrightarrow> heap_ok (free_saved_subtabs p s)"
  unfolding free_saved_subtabs_def by (rule heap_ok_update_project) simp_all

lemma heap_ok_active_project [simp]: "heap_ok (s\<lparr>active_project := a\<rparr>) = heap_ok s"
  and heap_ok_selected_row [simp]: "heap_ok (s\<lparr>selected_row := r\<rparr>) = heap_ok s"
  and heap_ok_sidebar_rows [simp]: "heap_ok (s\<lparr>sidebar_rows := rs\<rparr>) = heap_ok s"
  and heap_ok_sort_mode [simp]: "heap_ok (s\<lparr>sort_mode := m\<rparr>) = heap_ok s"
  and heap_ok_sort_func [simp]: "heap_ok (s\<lparr>sort_func := f\<rparr>) = heap_ok s"
  and heap_ok_real_time [simp]: "heap_ok (s\<lparr>real_time := t\<rparr>) = heap_ok s"
  by (simp_all add: heap_ok_def)

lemma lifecycle_ok_active_project [simp]: "lifecycle_ok (s\<lparr>active_project := a\<rparr>) = lifecycle_ok s"
  and lifecycle_ok_selected_row [simp]: "lifecycle_ok (s\<lparr>selected_row := r\<rparr>) = lifecycle_ok s"
  and lifecycle_ok_sidebar_rows [simp]: "lifecycle_ok (s\<lparr>sidebar_rows := rs\<rparr>) = lifecycle_ok s"
  and lifecycle_ok_sort_mode [simp]: "lifecycle_ok (s\<lparr>sort_mode := m\<rparr>) = lifecycle_ok s"
  and lifecycle_ok_sort_func [simp]: "lifecycle_ok (s\<lparr>sort_func := f\<rparr>) = lifecycle_ok s"
  and lifecycle_ok_real_time [simp]: "lifecycle_ok (s\<lparr>real_time := t\<rparr>) = lifecycle_ok s"
  by (simp_all add: lifecycle_ok_def)

lemma heap_ok_on_project_selected:
  assumes h: "heap_ok s"
  shows "heap_ok (on_project_selected row s)"
proof (cases row)
  case None
  then show ?thesis using h by simp
next
  case (Some p)
  show ?thesis
  proof (cases "project_mem s p")
    case None
    then show ?thesis using h Some by (simp add: on_project_selected_def)
  next
    case P: (Some P)
    define s1 where "s1 = s\<lparr>active_project := Some p,
                project_mem := (project_mem s)(p \<mapsto> P\<lparr>last_used := real_time s\<rparr>)\<rparr>"
    have s1: "s1 = update_project p (\<lambda>Q. Q\<lparr>last_used := real_time s\<rparr>) (s\<lparr>active_project := Some p\<rparr>)"
      using P by (simp add: s1_def update_project_def)
    have h1: "heap_ok s1"
      unfolding s1 using h by (intro heap_ok_update_project) simp_all
    define s4 where "s4 = update_project p
        (\<lambda>Q. Q\<lparr>subtab_counter := int (length (saved_subtabs Q))\<rparr>)
        (restore_saved_subtabs p (saved_subtabs P) s1)"
    have h4: "heap_ok s4"
      unfolding s4_def using h1
      by (intro heap_ok_update_project heap_ok_restore_saved_subtabs) simp_all
    define s5 where "s5 = (case project_mem s4 p of
                           None \<Rightarrow> fault s4
                         | Some Q \<Rightarrow>
                             (case g_list_nth (subtabs Q) (guint_of_int (saved_active_subtab Q)) of
                                None \<Rightarrow> s4
                              | Some active_sub \<Rightarrow> on_subtab_button_clicked active_sub s4))"
    have h5: "heap_ok s5"
      unfolding s5_def using h4
      by (auto split: option.splits intro: heap_ok_on_subtab_button_clicked)
    define s6 where "s6 = update_project p (\<lambda>Q. Q\<lparr>subtab_counter := 1\<rparr>)
                            (create_subtab p ''Tab 1'' (path P) s1)"
    have h6: "heap_ok s6"
      unfolding s6_def using h1
      by (intro heap_ok_update_project heap_ok_create_subtab) simp_all
    have "on_project_selected (Some p) s =
            (if p \<in> set (projects s) then
               (if \<not> initialized P then
                  update_project p (\<lambda>Q. Q\<lparr>initialized := True\<rparr>)
                    (if saved_subtabs P \<noteq> [] then free_saved_subtabs p s5 else s6)
                else s1)
             else s)"
      using P g_list_index_nonneg [of "projects s" p]
      unfolding s6_def s5_def s4_def s1_def
      by (simp add: on_project_selected_def Let_def)
    then show ?thesis
      using Some h h1 h5 h6
      by (auto intro!: heap_ok_update_project heap_ok_free_saved_subtabs)
  qed
qed

lemma heap_ok_own_subtabs:
  assumes "heap_ok s" "project_mem s p = Some P"
  shows "\<forall>st \<in> set (subtabs P). st < next_ptr s \<and>
            (\<exists>S. subtab_mem s st = Some S \<and> parent_tab S = p)"
proof
  fix st assume st: "st \<in> set (subtabs P)"
  have h: "heap_inv (projects s) (project_mem s) (subtab_mem s) (next_ptr s)"
    using assms(1) by (simp add: heap_ok_def)
  obtain S where S: "subtab_mem s st = Some S" "parent_tab S = p"
    using subtabs_ok_member [OF heap_inv_subtabs [OF h assms(2)] st] by blast
  have "st < next_ptr s"
    using heap_inv_fresh [OF h, of st] S by (cases "st < next_ptr s") auto
  with S show "st < next_ptr s \<and> (\<exists>S. subtab_mem s st = Some S \<and> parent_tab S = p)"
    by blast
qed

lemma lifecycle_okD: "lifecycle_ok s \<Longrightarrow> project_mem s p = Some P \<Longrightarrow> lifecycle P"
  by (simp add: lifecycle_ok_def)

lemma lifecycle_ok_update:
  assumes "lifecycle_ok s" "lifecycle P'"
  shows "lifecycle_ok (s\<lparr>project_mem := (project_mem s)(p \<mapsto> P')\<rparr>)"
  using assms by (simp add: lifecycle_ok_def)

lemma lifecycle_ok_on_project_selected:
  assumes h: "heap_ok s" and l: "lifecycle_ok s"
  shows "lifecycle_ok (on_project_selected row s)"
proof (cases row)
  case None
  then show ?thesis using l by simp
next
  case (Some p)
  show ?thesis
  proof (cases "project_mem s p")
    case None
    then show ?thesis using l Some by (simp add: on_project_selected_def)
  next
    case P: (Some P)
    have lP: "lifecycle P" using l P by (rule lifecycle_okD)
    consider (unlisted) "p \<notin> set (projects s)"
      | (init) "p \<in> set (projects s)" "initialized P"
      | (default) "p \<in> set (projects s)" "\<not> initialized P" "saved_subtabs P = []"
      | (restore) "p \<in> set (projects s)" "\<not> initialized P" "saved_subtabs P \<noteq> []"
      by blast
    then show ?thesis
    proof cases
      case unlisted
      then show ?thesis using l Some P by (simp add: on_project_selected_unlisted)
    next
      case init
      then show ?thesis
        using l lP Some
        by (simp add: on_project_selected_initialized [OF P] lifecycle_ok_def lifecycle_def)
    next
      case default
      then show ?thesis
        using l lP Some
        by (simp add: on_project_selected_default [OF P] lifecycle_ok_def lifecycle_def)
    next
      case restore
      then show ?thesis
        using l lP Some
        by (simp add: on_project_selected_restore [OF P _ _ _ heap_ok_own_subtabs [OF h P]]
                      lifecycle_ok_def lifecycle_def)
    qed
  qed
qed

subsection \<open>Closing a SubTab\<close>

lemma link_neighbour_found:
  assumes "x \<in> set xs" "distinct xs" "case prev of None \<Rightarrow> True | Some q \<Rightarrow> q \<noteq> x"
  shows "\<exists>r. link_neighbour prev xs x = Some r \<and>
             (case r of None \<Rightarrow> prev = None \<and> xs = [x]
              | Some n \<Rightarrow> n \<noteq> x \<and> (n \<in> set xs \<or> prev = Some n))"
  using assms
proof (induction xs arbitrary: prev)
  case Nil
  then show ?case by simp
next
  case (Cons y ys)
  show ?case
  proof (cases "y = x")
    case True
    then show ?thesis
      using Cons.prems by (cases ys; cases prev) auto
  next
    case False
    then have "x \<in> set ys" "distinct ys" using Cons.prems by auto
    from Cons.IH [OF this, of "Some y"] False
    obtain r where "link_neighbour (Some y) ys x = Some r"
      "case r of None \<Rightarrow> False | Some n \<Rightarrow> n \<noteq> x \<and> (n \<in> set ys \<or> y = n)"
      by (auto split: option.splits)
    then show ?thesis using False by (auto split: option.splits)
  qed
qed

lemma link_neighbour_other:
  assumes "x \<in> set xs" "distinct xs" "length xs \<noteq> 1"
  shows "\<exists>n. link_neighbour None xs x = Some (Some n) \<and> n \<noteq> x \<and> n \<in> set xs"
proof -
  from link_neighbour_found [OF assms(1,2), of None]
  obtain r where r: "link_neighbour None xs x = Some r"
    "case r of None \<Rightarrow> xs = [x] | Some n \<Rightarrow> n \<noteq> x \<and> n \<in> set xs"
    by (auto split: option.splits)
  then show ?thesis using assms(3) by (cases r) auto
qed


lemma close_subtab_open:
  assumes h: "heap_ok s" and S: "subtab_mem s st = Some S" and op: "\<not> closing S"
  shows "\<exists>P act. project_mem s (parent_tab S) = Some P \<and> st \<in> set (subtabs P) \<and>
           act \<noteq> Some st \<and>
           close_subtab (Some st) s =
             save_session
               (s\<lparr>subtab_mem := (subtab_mem s)(st := None),
                  freed := freed s @ [st],
                  project_mem := (project_mem s)(parent_tab S \<mapsto>
                    P\<lparr>tabs_box := remove1 st (tabs_box P),
                      subtabs := remove1 st (subtabs P),
                      active_subtab := act,
                      initialized := (length (subtabs P) \<noteq> 1 \<and> initialized P)\<rparr>)\<rparr>)"
proof -
  let ?p = "parent_tab S"
  have hi: "heap_inv (projects s) (project_mem s) (subtab_mem s) (next_ptr s)"
    using h by (simp add: heap_ok_def)
  obtain P where P: "project_mem s ?p = Some P" and mem: "st \<in> set (subtabs P)"
    using heap_inv_parent [OF hi S] by blast
  have ok: "subtabs_ok (subtab_mem s) ?p P" using hi P by (rule heap_inv_subtabs)
  then have d: "distinct (subtabs P)" by (simp add: subtabs_ok_def)
  define s0 where "s0 = s\<lparr>subtab_mem := (subtab_mem s)(st \<mapsto> S\<lparr>closing := True\<rparr>)\<rparr>"
  define s1 where "s1 = s0\<lparr>subtab_mem := (subtab_mem s0)(st \<mapsto>
                            S\<lparr>closing := True, signals_connected := False\<rparr>)\<rparr>"
  define s2 where "s2 = (if active_subtab P = Some st \<and> length (subtabs P) \<noteq> 1 then
                            (case link_neighbour None (subtabs P) st of
                               None \<Rightarrow> fault s1
                             | Some None \<Rightarrow> s1
                             | Some (Some new_active) \<Rightarrow> on_subtab_button_clicked new_active s1)
                          else s1)"
  have rest: "close_subtab (Some st) s =
     (case project_mem s2 ?p of
        None \<Rightarrow> fault s2
      | Some P2 \<Rightarrow>
          (let P3 = P2\<lparr>tabs_box := remove1 st (tabs_box P2),
                      subtabs := remove1 st (subtabs P2)\<rparr>;
               P4 = (if active_subtab P3 = Some st then P3\<lparr>active_subtab := None\<rparr> else P3);
               P5 = (if length (subtabs P) = 1 then P4\<lparr>initialized := False\<rparr> else P4)
           in save_session
                (s2\<lparr>project_mem := (project_mem s2)(?p \<mapsto> P5),
                    subtab_mem := (subtab_mem s2)(st := None),
                    freed := freed s2 @ [st]\<rparr>)))"
    using S op P unfolding s2_def s1_def s0_def
    by (simp add: close_subtab_def close_subtab_rest_def Let_def
             cong: option.case_cong if_cong)
  have "\<exists>act. act \<noteq> Some st \<and>
          s2 = s1\<lparr>project_mem := (project_mem s)(?p \<mapsto>
                 P\<lparr>active_subtab := (if act = None then active_subtab P else act)\<rparr>)\<rparr>"
  proof (cases "active_subtab P = Some st \<and> length (subtabs P) \<noteq> 1")
    case True
    then obtain n where n: "link_neighbour None (subtabs P) st = Some (Some n)" "n \<noteq> st"
      "n \<in> set (subtabs P)"
      using link_neighbour_other [OF mem d] by blast
    obtain N where N: "subtab_mem s n = Some N" "parent_tab N = ?p"
      using subtabs_ok_member [OF ok n(3)] by blast
    have "on_subtab_button_clicked n s1 =
            s1\<lparr>project_mem := (project_mem s)(?p \<mapsto> P\<lparr>active_subtab := Some n\<rparr>)\<rparr>"
      using N n(2) P
      by (simp add: on_subtab_button_clicked_def update_project_def s1_def s0_def)
    then show ?thesis
      using True n by (intro exI [of _ "Some n"]) (simp add: s2_def)
  next
    case False
    have "(project_mem s)(?p \<mapsto> P) = project_mem s" using P by (rule fun_upd_idem)
    then show ?thesis
      using False by (intro exI [of _ None]) (auto simp: s2_def s1_def s0_def)
  qed
  then obtain a where a: "a \<noteq> Some st"
    "s2 = s1\<lparr>project_mem := (project_mem s)(?p \<mapsto>
                 P\<lparr>active_subtab := (if a = None then active_subtab P else a)\<rparr>)\<rparr>"
    by blast
  let ?act = "if (if a = None then active_subtab P else a) = Some st then None
              else (if a = None then active_subtab P else a)"
  have "?act \<noteq> Some st" by auto
  moreover have "close_subtab (Some st) s =
             save_session
               (s\<lparr>subtab_mem := (subtab_mem s)(st := None),
                  freed := freed s @ [st],
                  project_mem := (project_mem s)(?p \<mapsto>
                    P\<lparr>tabs_box := remove1 st (tabs_box P),
                      subtabs := remove1 st (subtabs P),
                      active_subtab := ?act,
                      initialized := (length (subtabs P) \<noteq> 1 \<and> initialized P)\<rparr>)\<rparr>)"
    unfolding rest a(2)
    by (auto simp: Let_def s1_def s0_def intro!: arg_cong [where f = save_session] record_eqI)
  ultimately show ?thesis using P mem by blast
qed

lemma those_map_Some:
  "(\<And>x. x \<in> set xs \<Longrightarrow> f x \<noteq> None) \<Longrightarrow> those (map f xs) = Some (map (\<lambda>x. the (f x)) xs)"
  by (induction xs) (auto split: option.splits)

lemma heap_okD: "heap_ok s \<Longrightarrow> heap_inv (projects s) (project_mem s) (subtab_mem s) (next_ptr s)"
  by (simp add: heap_ok_def)

lemma project_json_Some:
  assumes h: "heap_ok s" and p: "p \<in> set (projects s)"
  shows "project_json s p \<noteq> None"
proof -
  obtain P where P: "project_mem s p = Some P"
    using heap_inv_listed [OF heap_okD [OF h], of p] p by auto
  have "subtab_json s P st \<noteq> None" if "st \<in> set (subtabs P)" for st
    using subtabs_ok_member [OF heap_inv_subtabs [OF heap_okD [OF h] P] that]
    by (auto simp: subtab_json_def)
  then have "those (map (subtab_json s P) (subtabs P)) \<noteq> None"
    using those_map_Some [of "subtabs P" "subtab_json s P"] by simp
  then show ?thesis
    using P by (auto simp: project_json_def Let_def)
qed

lemma session_document_Some:
  assumes "heap_ok s"
  shows "session_document s =
           Some (JObject
            [(''active_project_index'', JInt (active_index (projects s) (active_project s))),
             (''sort_mode'', JString (sort_mode_string (sort_mode s))),
             (''projects'', JArray (map (\<lambda>p. the (project_json s p)) (projects s)))])"
  using those_map_Some [of "projects s" "project_json s"] project_json_Some [OF assms]
  by (simp add: session_document_def)

lemma save_session_ok:
  assumes "heap_ok s"
  shows "saves (save_session s) = Suc (saves s)"
    and "session_json (save_session s) = Parsed (session_document s)"
    and "invalid_deref (save_session s) = invalid_deref s"
  using session_document_Some [OF assms] by (simp_all add: save_session_def)

lemma close_subtab_result:
  assumes h: "heap_ok s" and S: "subtab_mem s st = Some S" and op: "\<not> closing S"
  shows "\<exists>P act. project_mem s (parent_tab S) = Some P \<and> st \<in> set (subtabs P) \<and>
           act \<noteq> Some st \<and>
           project_mem (close_subtab (Some st) s) = (project_mem s)(parent_tab S \<mapsto>
                    P\<lparr>tabs_box := remove1 st (tabs_box P),
                      subtabs := remove1 st (subtabs P),
                      active_subtab := act,
                      initialized := (length (subtabs P) \<noteq> 1 \<and> initialized P)\<rparr>) \<and>
           subtab_mem (close_subtab (Some st) s) = (subtab_mem s)(st := None) \<and>
           freed (close_subtab (Some st) s) = freed s @ [st] \<and>
           saves (close_subtab (Some st) s) = Suc (saves s) \<and>
           projects (close_subtab (Some st) s) = projects s \<and>
           next_ptr (close_subtab (Some st) s) = next_ptr s \<and>
           spawned (close_subtab (Some st) s) = spawned s \<and>
           real_time (close_subtab (Some st) s) = real_time s \<and>
           heap_ok (close_subtab (Some st) s)"
proof -
  from close_subtab_open [OF h S op] obtain P act where
    P: "project_mem s (parent_tab S) = Some P" and mem: "st \<in> set (subtabs P)"
    and act: "act \<noteq> Some st"
    and eq: "close_subtab (Some st) s =
             save_session
               (s\<lparr>subtab_mem := (subtab_mem s)(st := None),
                  freed := freed s @ [st],
                  project_mem := (project_mem s)(parent_tab S \<mapsto>
                    P\<lparr>tabs_box := remove1 st (tabs_box P),
                      subtabs := remove1 st (subtabs P),
                      active_subtab := act,
                      initialized := (length (subtabs P) \<noteq> 1 \<and> initialized P)\<rparr>)\<rparr>)"
    by blast
  let ?P' = "P\<lparr>tabs_box := remove1 st (tabs_box P), subtabs := remove1 st (subtabs P),
                active_subtab := act,
                initialized := (length (subtabs P) \<noteq> 1 \<and> initialized P)\<rparr>"
  let ?s' = "s\<lparr>subtab_mem := (subtab_mem s)(st := None), freed := freed s @ [st],
                project_mem := (project_mem s)(parent_tab S \<mapsto> ?P')\<rparr>"
  have h': "heap_ok ?s'"
    using heap_inv_remove_subtab [OF heap_okD [OF h] P S refl, of ?P']
    by (simp add: heap_ok_def)
  show ?thesis
    using P mem act h' save_session_ok(1) [OF h']
    by (intro exI [of _ P] exI [of _ act]) (simp add: eq)
qed

subsection \<open>Handlers keep the state well formed\<close>

lemma well_formed_fault [simp]: "well_formed (fault s) = well_formed s"
  and well_formed_save_session [simp]: "well_formed (save_session s) = well_formed s"
  and well_formed_active_project [simp]: "well_formed (s\<lparr>active_project := a\<rparr>) = well_formed s"
  and well_formed_selected_row [simp]: "well_formed (s\<lparr>selected_row := r\<rparr>) = well_formed s"
  and well_formed_sidebar_rows [simp]: "well_formed (s\<lparr>sidebar_rows := rs\<rparr>) = well_formed s"
  and well_formed_sort_mode [simp]: "well_formed (s\<lparr>sort_mode := m\<rparr>) = well_formed s"
  and well_formed_sort_func [simp]: "well_formed (s\<lparr>sort_func := f\<rparr>) = well_formed s"
  and well_formed_real_time [simp]: "well_formed (s\<lparr>real_time := t\<rparr>) = well_formed s"
  by (simp_all add: well_formed_def)

lemma well_formed_on_project_selected: "well_formed s \<Longrightarrow> well_formed (on_project_selected row s)"
  by (simp add: well_formed_def heap_ok_on_project_selected lifecycle_ok_on_project_selected)

lemma well_formed_gtk_list_box_select_row: "well_formed s \<Longrightarrow> well_formed (gtk_list_box_select_row row s)"
  by (simp add: gtk_list_box_select_row_def well_formed_on_project_selected)

lemma lifecycle_ok_upd:
  "lifecycle_ok s \<Longrightarrow> project_mem s' = (project_mem s)(p \<mapsto> P') \<Longrightarrow> lifecycle P' \<Longrightarrow>
   lifecycle_ok s'"
  by (simp add: lifecycle_ok_def)

lemma lifecycle_tabs:
  "lifecycle P \<Longrightarrow> subtabs P \<noteq> [] \<Longrightarrow> initialized P \<and> saved_subtabs P = []"
  by (auto simp: lifecycle_def)

lemma well_formed_close_subtab: 
  assumes "well_formed s"
  shows "well_formed (close_subtab st s)"
proof (cases st)
  case None
  then show ?thesis using assms by (simp add: close_subtab_def)
next
  case (Some a)
  show ?thesis
  proof (cases "subtab_mem s a")
    case None
    then show ?thesis using assms Some by (simp add: close_subtab_def)
  next
    case S: (Some S)
    show ?thesis
    proof (cases "closing S")
      case True
      then show ?thesis using assms Some S by (simp add: close_subtab_def)
    next
      case False
      have h: "heap_ok s" and l: "lifecycle_ok s" using assms by (simp_all add: well_formed_def)
      from close_subtab_result [OF h S False] obtain P act where
        P: "project_mem s (parent_tab S) = Some P" and mem: "a \<in> set (subtabs P)"
        and pm: "project_mem (close_subtab (Some a) s) = (project_mem s)(parent_tab S \<mapsto>
                    P\<lparr>tabs_box := remove1 a (tabs_box P),
                      subtabs := remove1 a (subtabs P),
                      active_subtab := act,
                      initialized := (length (subtabs P) \<noteq> 1 \<and> initialized P)\<rparr>)"
        and h': "heap_ok (close_subtab (Some a) s)"
        by auto
      have lP: "initialized P \<and> saved_subtabs P = []"
        using lifecycle_tabs [OF lifecycle_okD [OF l P]] mem by (cases "subtabs P") auto
      have "lifecycle (P\<lparr>tabs_box := remove1 a (tabs_box P),
                      subtabs := remove1 a (subtabs P),
                      active_subtab := act,
                      initialized := (length (subtabs P) \<noteq> 1 \<and> initialized P)\<rparr>)"
        using lP mem by (cases "subtabs P") (auto simp: lifecycle_def split: if_splits)
      from lifecycle_ok_upd [OF l pm this] h' show ?thesis
        using Some by (simp add: well_formed_def)
    qed
  qed
qed

lemma well_formed_close_handlers:
  assumes "well_formed s"
  shows "well_formed (on_close_subtab_clicked st s)" "well_formed (on_terminal_child_exited st s)"
  using assms well_formed_close_subtab [OF assms, of "Some st"]
  by (auto simp: on_close_subtab_clicked_def on_terminal_child_exited_def split: option.splits)

lemma well_formed_update_project:
  assumes "well_formed s"
    and "\<And>P. project_mem s p = Some P \<Longrightarrow> lifecycle P \<Longrightarrow>
           mset (subtabs (f P)) = mset (subtabs P) \<and> mset (tabs_box (f P)) = mset (tabs_box P) \<and>
           lifecycle (f P)"
  shows "well_formed (update_project p f s)"
proof (cases "project_mem s p")
  case None
  then show ?thesis using assms(1) by (simp add: update_project_def)
next
  case (Some P)
  have l: "lifecycle P" using assms(1) Some by (simp add: well_formed_def lifecycle_ok_def)
  have "heap_ok (update_project p f s)"
    using assms(1) assms(2) [OF _ l] Some
    by (intro heap_ok_update_project) (auto simp: well_formed_def)
  moreover have "lifecycle_ok (update_project p f s)"
    using assms(1) assms(2) [OF Some l] Some
    by (simp add: update_project_Some well_formed_def lifecycle_ok_def)
  ultimately show ?thesis by (simp add: well_formed_def)
qed

lemma well_formed_update_subtab:
  assumes "well_formed s" and "\<And>S. subtab_mem s st = Some S \<Longrightarrow> parent_tab (f S) = parent_tab S"
  shows "well_formed (update_subtab st f s)"
  using assms heap_ok_update_subtab [of s st f]
  by (simp add: well_formed_def lifecycle_ok_def)

lemma well_formed_on_terminal_title_changed: "well_formed s \<Longrightarrow> well_formed (on_terminal_title_changed st title s)"
  by (auto simp: on_terminal_title_changed_def intro: well_formed_update_subtab split: option.splits)

lemma create_subtab_project_mem:
  "project_mem (create_subtab p nm wd s) =
     (case project_mem s p of None \<Rightarrow> project_mem s
      | Some P \<Rightarrow> (project_mem s)(p \<mapsto>
               P\<lparr>tabs_box := tabs_box P @ [next_ptr s],
                 subtabs := subtabs P @ [next_ptr s],
                 active_subtab := Some (next_ptr s)\<rparr>))"
  by (cases "project_mem s p") (simp_all add: create_subtab_None create_subtab_Some)

lemma well_formed_on_add_subtab_clicked:
  assumes "well_formed s"
  shows "well_formed (on_add_subtab_clicked p s)"
proof (cases "project_mem s p")
  case None
  then show ?thesis using assms by (simp add: on_add_subtab_clicked_def)
next
  case (Some P)
  have h: "heap_ok s" and l: "lifecycle_ok s" using assms by (simp_all add: well_formed_def)
  have lP: "lifecycle P" using l Some by (rule lifecycle_okD)
  have "heap_ok (on_add_subtab_clicked p s)"
    using h Some
    by (auto simp: on_add_subtab_clicked_def
             intro!: heap_ok_update_project heap_ok_create_subtab heap_ok_free_saved_subtabs)
  moreover have "\<exists>P'. project_mem (on_add_subtab_clicked p s) = (project_mem s)(p \<mapsto> P') \<and>
                   lifecycle P'"
    using Some lP
    by (auto simp: on_add_subtab_clicked_def update_project_mem create_subtab_project_mem
                   free_saved_subtabs_def lifecycle_def)
  ultimately show ?thesis
    using lifecycle_ok_upd [OF l] by (auto simp: well_formed_def)
qed

lemma well_formedI: "heap_ok s \<Longrightarrow> lifecycle_ok s \<Longrightarrow> well_formed s"
  by (simp add: well_formed_def)

lemma gtk_list_box_append_fields [simp]:
  "projects (gtk_list_box_append r s) = projects s"
  "project_mem (gtk_list_box_append r s) = project_mem s"
  "subtab_mem (gtk_list_box_append r s) = subtab_mem s"
  "next_ptr (gtk_list_box_append r s) = next_ptr s"
  "active_project (gtk_list_box_append r s) = active_project s"
  "sort_mode (gtk_list_box_append r s) = sort_mode s"
  "spawned (gtk_list_box_append r s) = spawned s" "saves (gtk_list_box_append r s) = saves s"
  "freed (gtk_list_box_append r s) = freed s"
  "selected_row (gtk_list_box_append r s) = selected_row s"
  "real_time (gtk_list_box_append r s) = real_time s"
  "session_json (gtk_list_box_append r s) = session_json s"
  "sort_func (gtk_list_box_append r s) = sort_func s"
  "invalid_deref (gtk_list_box_append r s) = invalid_deref s"
  "legacy_projects (gtk_list_box_append r s) = legacy_projects s"
  "sort_conf (gtk_list_box_append r s) = sort_conf s"
  by (simp_all add: gtk_list_box_append_def split: option.splits)

lemma create_project_lazy:
  "create_project nm pth False s =
     (gtk_list_box_append (next_ptr s)
        (s\<lparr>project_mem := (project_mem s)(next_ptr s \<mapsto> new_project nm pth 0),
           next_ptr := Suc (next_ptr s)\<rparr>))
     \<lparr>project_mem := (project_mem s)(next_ptr s \<mapsto> new_project nm pth (length (projects s))),
      projects := projects s @ [next_ptr s],
      active_project := Some (next_ptr s)\<rparr>"
  by (simp add: create_project_def Let_def new_project_def)

lemma create_project_lazy_fields [simp]:
  "projects (create_project nm pth False s) = projects s @ [next_ptr s]"
  "project_mem (create_project nm pth False s) =
     (project_mem s)(next_ptr s \<mapsto> new_project nm pth (length (projects s)))"
  "subtab_mem (create_project nm pth False s) = subtab_mem s"
  "next_ptr (create_project nm pth False s) = Suc (next_ptr s)"
  "active_project (create_project nm pth False s) = Some (next_ptr s)"
  "sort_mode (create_project nm pth False s) = sort_mode s"
  "spawned (create_project nm pth False s) = spawned s"
  "saves (create_project nm pth False s) = saves s"
  "freed (create_project nm pth False s) = freed s"
  "selected_row (create_project nm pth False s) = selected_row s"
  "real_time (create_project nm pth False s) = real_time s"
  "session_json (create_project nm pth False s) = session_json s"
  "sort_func (create_project nm pth False s) = sort_func s"
  "invalid_deref (create_project nm pth False s) = invalid_deref s"
  "legacy_projects (create_project nm pth False s) = legacy_projects s"
  "sort_conf (create_project nm pth False s) = sort_conf s"
  by (simp_all add: create_project_lazy)

lemma well_formed_create_project_lazy:
  assumes "well_formed s"
  shows "well_formed (create_project nm pth False s)"
proof (rule well_formedI)
  have h: "heap_ok s" and l: "lifecycle_ok s" using assms by (simp_all add: well_formed_def)
  show "heap_ok (create_project nm pth False s)"
    using heap_inv_add_project [OF heap_okD [OF h], of "new_project nm pth (length (projects s))"]
    by (simp add: heap_ok_def new_project_def)
  show "lifecycle_ok (create_project nm pth False s)"
    using l by (simp add: lifecycle_ok_def lifecycle_def new_project_def)
qed

lemma create_project_init:
  "create_project nm pth True s =
     gtk_list_box_select_row (next_ptr s)
       (update_project (next_ptr s) (\<lambda>Q. Q\<lparr>subtab_counter := 1, initialized := True\<rparr>)
          (create_subtab (next_ptr s) ''Tab 1'' pth (create_project nm pth False s)))"
  by (simp add: create_project_def Let_def)

lemma well_formed_create_project:
  assumes "well_formed s"
  shows "well_formed (create_project nm pth init s)"
proof (cases init)
  case False
  then show ?thesis using assms by (simp add: well_formed_create_project_lazy)
next
  case True
  let ?n = "next_ptr s"
  let ?s2 = "create_project nm pth False s"
  let ?s3 = "update_project ?n (\<lambda>Q. Q\<lparr>subtab_counter := 1, initialized := True\<rparr>)
          (create_subtab ?n ''Tab 1'' pth ?s2)"
  let ?P = "(new_project nm pth (length (projects s)))
              \<lparr>tabs_box := [Suc ?n], subtabs := [Suc ?n], active_subtab := Some (Suc ?n),
               subtab_counter := 1, initialized := True\<rparr>"
  have w2: "well_formed ?s2" using assms by (rule well_formed_create_project_lazy)
  then have h2: "heap_ok ?s2" and l2: "lifecycle_ok ?s2" by (simp_all only: well_formed_def)
  have "heap_ok ?s3"
    using h2 by (intro heap_ok_update_project heap_ok_create_subtab) simp_all
  moreover have pm: "project_mem ?s3 = (project_mem ?s2)(?n \<mapsto> ?P)"
    by (simp add: update_project_mem create_subtab_project_mem new_project_def)
  have "lifecycle ?P" by (simp add: lifecycle_def new_project_def)
  with l2 pm have "lifecycle_ok ?s3" by (rule lifecycle_ok_upd)
  ultimately have "well_formed ?s3" by (rule well_formedI)
  then show ?thesis
    using True by (simp add: create_project_init well_formed_gtk_list_box_select_row)
qed

lemma well_formed_on_folder_selected:
  assumes "well_formed s"
  shows "well_formed (on_folder_selected folder s)"
proof (cases folder)
  case None
  then show ?thesis using assms by (simp add: on_folder_selected_def)
next
  case (Some bp)
  obtain basename pth where "bp = (basename, pth)" by (cases bp)
  with Some show ?thesis
    using well_formed_create_project [OF assms, of basename pth True]
    by (simp add: on_folder_selected_def)
qed

lemma free_subtabs_fields [simp]:
  "projects (free_subtabs xs s) = projects s"
  "project_mem (free_subtabs xs s) = project_mem s"
  "next_ptr (free_subtabs xs s) = next_ptr s"
  by (induction xs arbitrary: s) (simp_all split: option.splits)

lemma free_subtabs_subtab_mem_at:
  "subtab_mem (free_subtabs xs s) a = (if a \<in> set xs then None else subtab_mem s a)"
proof (induction xs arbitrary: s)
  case Nil
  then show ?case by simp
next
  case (Cons x xs)
  show ?case
    by (cases "subtab_mem s x") (simp_all add: Cons.IH)
qed

lemma free_subtabs_subtab_mem:
  "subtab_mem (free_subtabs xs s) = (\<lambda>a. if a \<in> set xs then None else subtab_mem s a)"
  by (rule ext) (rule free_subtabs_subtab_mem_at)

lemma gtk_list_box_remove_fields [simp]:
  "projects (gtk_list_box_remove r s) = projects s"
  "project_mem (gtk_list_box_remove r s) = project_mem s"
  "subtab_mem (gtk_list_box_remove r s) = subtab_mem s"
  "next_ptr (gtk_list_box_remove r s) = next_ptr s"
  by (simp_all add: gtk_list_box_remove_def Let_def)


lemma well_formed_on_remove_project_clicked:
  assumes "well_formed s"
  shows "well_formed (on_remove_project_clicked s)"
proof (cases "active_project s")
  case None
  then show ?thesis using assms by (simp add: on_remove_project_clicked_def)
next
  case (Some p)
  show ?thesis
  proof (cases "project_mem s p")
    case None
    then show ?thesis using assms Some by (simp add: on_remove_project_clicked_def)
  next
    case P: (Some P)
    have h: "heap_ok s" and l: "lifecycle_ok s" using assms by (simp_all add: well_formed_def)
    define s3 where "s3 = (let s2 = free_subtabs (subtabs P) (gtk_list_box_remove p s)
                           in s2\<lparr>projects := remove1 p (projects s2),
                                project_mem := (project_mem s2)(p := None)\<rparr>)"
    have "heap_ok s3"
      using heap_inv_remove_project [OF heap_okD [OF h] P]
      by (simp add: s3_def heap_ok_def Let_def free_subtabs_subtab_mem cong: if_cong)
    moreover have "lifecycle_ok s3"
      using l by (simp add: s3_def lifecycle_ok_def Let_def)
    ultimately have w3: "well_formed (save_session s3)"
      by (simp add: well_formed_def)
    define t where "t = save_session s3"
    have eq: "on_remove_project_clicked s =
            (case projects t of
               [] \<Rightarrow> t\<lparr>active_project := None\<rparr>
             | first # _ \<Rightarrow>
                 (case project_mem t first of
                    None \<Rightarrow> fault (t\<lparr>active_project := Some first\<rparr>)
                  | Some F \<Rightarrow>
                      gtk_list_box_select_row first (t\<lparr>active_project := Some first\<rparr>)))"
      using Some P unfolding t_def s3_def
      by (simp add: on_remove_project_clicked_def Let_def
               cong: list.case_cong option.case_cong if_cong)
    have wt: "well_formed t" using w3 by (simp add: t_def)
    show ?thesis
    proof (cases "projects t")
      case Nil
      then show ?thesis using wt by (simp add: eq)
    next
      case (Cons first rest)
      then show ?thesis
        using wt well_formed_gtk_list_box_select_row [of "t\<lparr>active_project := Some first\<rparr>" first]
        by (cases "project_mem t first") (simp_all add: eq)
    qed
  qed
qed

lemma well_formed_apply_sort: "well_formed s \<Longrightarrow> well_formed (apply_sort s)"
  by (simp add: apply_sort_def)

lemma well_formed_on_sort_clicked: "well_formed s \<Longrightarrow> well_formed (on_sort_clicked s)"
  by (simp add: on_sort_clicked_def well_formed_apply_sort)

subsection \<open>The drag handlers keep the state well formed\<close>

lemma mset_insert_after:
  "sibling \<in> set ws \<Longrightarrow> mset (insert_after sibling child ws) = add_mset child (mset ws)"
  by (induction ws) auto

lemma mset_gtk_box_reorder_child_after:
  "mset (gtk_box_reorder_child_after box child sibling) = mset box"
proof (cases "child \<in> set box")
  case False
  then show ?thesis by (simp add: gtk_box_reorder_child_after_def)
next
  case True
  show ?thesis
  proof (cases sibling)
    case None
    then show ?thesis using True by (simp add: gtk_box_reorder_child_after_def)
  next
    case (Some sib)
    show ?thesis
    proof (cases "sib \<notin> set box \<or> sib = child")
      case True
      then show ?thesis using Some \<open>child \<in> set box\<close>
        by (simp add: gtk_box_reorder_child_after_def)
    next
      case False
      then have "sib \<in> set (remove1 child box)" by simp
      then have "mset (insert_after sib child (remove1 child box)) =
                 add_mset child (mset (remove1 child box))"
        by (rule mset_insert_after)
      then show ?thesis using False Some \<open>child \<in> set box\<close>
        by (simp add: gtk_box_reorder_child_after_def)
    qed
  qed
qed

lemma mset_drag_scan: "mset (drag_scan bounds d x box rest) = mset box"
  by (induction rest)
     (simp_all add: Let_def mset_gtk_box_reorder_child_after split: option.splits prod.splits)

lemma well_formed_update_project_box:
  assumes "well_formed s"
    and "\<And>P. project_mem s p = Some P \<Longrightarrow> lifecycle P \<Longrightarrow>
           mset (tabs_box P) = mset (subtabs P) \<Longrightarrow>
           mset (subtabs (f P)) = mset (subtabs P) \<and> mset (tabs_box (f P)) = mset (tabs_box P) \<and>
           lifecycle (f P)"
  shows "well_formed (update_project p f s)"
proof (rule well_formed_update_project [OF assms(1)])
  fix P assume P: "project_mem s p = Some P" and l: "lifecycle P"
  have "heap_ok s" using assms(1) by (simp add: well_formed_def)
  then have "subtabs_ok (subtab_mem s) p P"
    using P by (intro heap_inv_subtabs [OF heap_okD])
  then have "mset (tabs_box P) = mset (subtabs P)" by (simp add: subtabs_ok_def)
  with P l show "mset (subtabs (f P)) = mset (subtabs P) \<and>
           mset (tabs_box (f P)) = mset (tabs_box P) \<and> lifecycle (f P)"
    by (rule assms(2))
qed

lemma lifecycle_drag_fields [simp]:
  "lifecycle (P\<lparr>drag_tab := a\<rparr>) = lifecycle P"
  "lifecycle (P\<lparr>drag_active := b\<rparr>) = lifecycle P"
  "lifecycle (P\<lparr>drag_start_x := c\<rparr>) = lifecycle P"
  by (simp_all add: lifecycle_def)

lemma lifecycle_perm:
  "mset (subtabs P') = mset (subtabs P) \<Longrightarrow> initialized P' = initialized P \<Longrightarrow>
   saved_subtabs P' = saved_subtabs P \<Longrightarrow> lifecycle P' = lifecycle P"
  by (metis lifecycle_def mset_zero_iff)

lemma well_formed_on_tab_drag_begin:
  assumes "well_formed s"
  shows "well_formed (on_tab_drag_begin p x hit s)"
proof (cases "project_mem s p")
  case None
  then show ?thesis using assms by (simp add: on_tab_drag_begin_def)
next
  case (Some P)
  show ?thesis
  proof (cases hit)
    case (Pick_tab d)
    have "on_tab_drag_begin p x hit s =
          update_project p (\<lambda>P. P\<lparr>drag_tab := Some d, drag_active := False,
                                  drag_start_x := Some x\<rparr>) s"
      using Some Pick_tab by (simp add: on_tab_drag_begin_def update_project_def)
    then show ?thesis
      using assms by (simp add: well_formed_update_project)
  qed (use assms Some in \<open>simp_all add: on_tab_drag_begin_def\<close>)
qed

lemma well_formed_on_tab_drag_update:
  assumes "well_formed s"
  shows "well_formed (on_tab_drag_update p off b s)"
proof (cases "project_mem s p")
  case None
  then show ?thesis using assms by (simp add: on_tab_drag_update_def)
next
  case (Some P)
  have scan: "well_formed (update_project p
                 (\<lambda>Q. Q\<lparr>tabs_box := drag_scan b d x (tabs_box Q) (tabs_box Q)\<rparr>) t)"
    if "well_formed t" for t d x
    using that
    by (rule well_formed_update_project)
       (simp add: mset_drag_scan lifecycle_def)
  have act: "well_formed (update_subtab d (\<lambda>S. S\<lparr>tab_dragging := True\<rparr>)
               (s\<lparr>project_mem := (project_mem s)(p \<mapsto> P\<lparr>drag_active := True\<rparr>)\<rparr>))" for d
  proof -
    have "s\<lparr>project_mem := (project_mem s)(p \<mapsto> P\<lparr>drag_active := True\<rparr>)\<rparr> =
          update_project p (\<lambda>P. P\<lparr>drag_active := True\<rparr>) s"
      using Some by (simp add: update_project_def)
    then show ?thesis
      using assms by (simp add: well_formed_update_project well_formed_update_subtab)
  qed
  show ?thesis
  proof (cases "drag_tab P")
    case None
    then show ?thesis using assms Some by (simp add: on_tab_drag_update_def)
  next
    case d: (Some d)
    show ?thesis
    proof (cases "drag_start_x P")
      case None
      then show ?thesis using assms Some d by (simp add: on_tab_drag_update_def)
    next
      case x: (Some x)
      show ?thesis
        using assms Some d x scan [OF act] scan [OF assms]
        by (simp add: on_tab_drag_update_def Let_def)
    qed
  qed
qed

lemma well_formed_on_tab_drag_end:
  assumes "well_formed s"
  shows "well_formed (on_tab_drag_end p s)"
proof (cases "project_mem s p")
  case None
  then show ?thesis using assms by (simp add: on_tab_drag_end_def)
next
  case (Some P)
  have fin: "well_formed (update_project p (\<lambda>Q. Q\<lparr>drag_tab := None, drag_active := False\<rparr>) t)"
    if "well_formed t" for t
    using that by (rule well_formed_update_project) simp
  have reb: "well_formed (save_session (rebuild_subtabs_list p
               (update_subtab d (\<lambda>S. S\<lparr>tab_dragging := False\<rparr>) s)))" for d
  proof -
    have "well_formed (update_subtab d (\<lambda>S. S\<lparr>tab_dragging := False\<rparr>) s)"
      using assms by (simp add: well_formed_update_subtab)
    then have "well_formed (rebuild_subtabs_list p
               (update_subtab d (\<lambda>S. S\<lparr>tab_dragging := False\<rparr>) s))"
      unfolding rebuild_subtabs_list_def
      by (rule well_formed_update_project_box) (simp add: lifecycle_perm [where P' = "Q\<lparr>subtabs := tabs_box Q\<rparr>" and P = Q for Q])
    then show ?thesis by simp
  qed
  show ?thesis
    using assms Some fin [OF reb] fin [OF assms]
    by (simp add: on_tab_drag_end_def Let_def split: option.splits)
qed

lemma well_formed_drag_updates:
  "well_formed s \<Longrightarrow> well_formed (drag_updates p ups s)"
  by (induction p ups s rule: drag_updates.induct) (simp_all add: well_formed_on_tab_drag_update)

lemma well_formed_drag_gesture:
  "well_formed s \<Longrightarrow> well_formed (drag_gesture p x hit ups s)"
  by (simp add: drag_gesture_def well_formed_on_tab_drag_end well_formed_drag_updates
        well_formed_on_tab_drag_begin)

subsection \<open>A concrete well-formed state\<close>

lemma well_formed_fresh_app: "well_formed (fresh_app f l c n)"
  by (simp add: well_formed_def heap_ok_def heap_inv_def lifecycle_ok_def fresh_app_def)

lemma well_formed_one_tab_app: "well_formed one_tab_app"
  unfolding one_tab_app_def by (intro well_formed_create_project well_formed_fresh_app)

lemma one_tab_app_subtab: "subtab_mem one_tab_app 1 = Some (new_subtab 0 ''Tab 1'')"
  by code_simp

lemma one_tab_app_project: "project_mem one_tab_app 0 = Some one_tab_project"
  by code_simp

lemma one_tab_app_fields:
  "next_ptr one_tab_app = 2" "spawned one_tab_app = [''/a'']" "saves one_tab_app = 0"
  "freed one_tab_app = []"
  by code_simp+

subsection \<open>Closing the last tab\<close>

text \<open>
  \<^bold>\<open>C7\<close> (last-tab-close reverts state). In a well-formed state, let \<open>st\<close> be the only
  live tab of its project and not closing. The close button and the terminal's
  \<^verbatim>\<open>child-exited\<close> signal both run \<^verbatim>\<open>close_subtab\<close>. Afterwards the project is
  uninitialized, with no live tab and no pending descriptor, and the tab is freed.
  Selecting the project then marks it initialized with exactly one live tab, the newly
  allocated one, named \<open>Tab 1\<close>, and spawns one terminal in the project's path.
\<close>

theorem last_tab_close_reverts:
  assumes "heap_ok s" "lifecycle_ok s"
    and "subtab_mem s st = Some S" "\<not> closing S"
    and "project_mem s (parent_tab S) = Some P" "length (subtabs P) = 1"
  shows "on_close_subtab_clicked st s = close_subtab (Some st) s \<and>
         on_terminal_child_exited st s = close_subtab (Some st) s \<and>
         (\<exists>P1. project_mem (close_subtab (Some st) s) (parent_tab S) = Some P1 \<and>
               \<not> initialized P1 \<and> subtabs P1 = [] \<and> saved_subtabs P1 = []) \<and>
         subtab_mem (close_subtab (Some st) s) st = None \<and>
         (\<exists>P2. project_mem (on_project_selected (Some (parent_tab S)) (close_subtab (Some st) s))
                 (parent_tab S) = Some P2 \<and>
               initialized P2 \<and> subtabs P2 = [next_ptr s] \<and> saved_subtabs P2 = [] \<and>
               active_subtab P2 = Some (next_ptr s)) \<and>
         subtab_mem (on_project_selected (Some (parent_tab S)) (close_subtab (Some st) s))
           (next_ptr s) = Some (new_subtab (parent_tab S) ''Tab 1'') \<and>
         spawned (on_project_selected (Some (parent_tab S)) (close_subtab (Some st) s)) =
           spawned s @ [path P]"
proof -
  let ?p = "parent_tab S" and ?s1 = "close_subtab (Some st) s"
  from close_subtab_result [OF assms(1,3,4)] assms(5) obtain act where
    mem: "st \<in> set (subtabs P)"
    and pm: "project_mem ?s1 = (project_mem s)(?p \<mapsto>
                    P\<lparr>tabs_box := remove1 st (tabs_box P),
                      subtabs := remove1 st (subtabs P),
                      active_subtab := act,
                      initialized := (length (subtabs P) \<noteq> 1 \<and> initialized P)\<rparr>)"
    and sm: "subtab_mem ?s1 = (subtab_mem s)(st := None)"
    and rest: "projects ?s1 = projects s" "next_ptr ?s1 = next_ptr s" "spawned ?s1 = spawned s"
    by auto
  have only: "subtabs P = [st]"
    using mem assms(6) by (cases "subtabs P") auto
  have "lifecycle P" using assms(2,5) by (rule lifecycle_okD)
  then have saved: "saved_subtabs P = []"
    using only by (auto simp: lifecycle_def)
  let ?P1 = "P\<lparr>tabs_box := remove1 st (tabs_box P), subtabs := remove1 st (subtabs P),
                active_subtab := act,
                initialized := (length (subtabs P) \<noteq> 1 \<and> initialized P)\<rparr>"
  have P1: "project_mem ?s1 ?p = Some ?P1" by (simp add: pm)
  have listed: "?p \<in> set (projects ?s1)"
    using heap_inv_listed [OF heap_okD [OF assms(1)], of ?p] assms(5) rest(1) by simp
  have sel: "on_project_selected (Some ?p) ?s1 =
           ?s1\<lparr>active_project := Some ?p,
             subtab_mem := (subtab_mem ?s1)(next_ptr ?s1 \<mapsto> new_subtab ?p ''Tab 1''),
             next_ptr := Suc (next_ptr ?s1),
             spawned := spawned ?s1 @ [path ?P1],
             project_mem := (project_mem ?s1)(?p \<mapsto>
               ?P1\<lparr>last_used := real_time ?s1,
                 tabs_box := tabs_box ?P1 @ [next_ptr ?s1],
                 subtabs := subtabs ?P1 @ [next_ptr ?s1],
                 active_subtab := Some (next_ptr ?s1),
                 subtab_counter := 1,
                 initialized := True\<rparr>)\<rparr>"
    using assms(6) saved by (intro on_project_selected_default [OF P1 listed]) simp_all
  have a: "on_close_subtab_clicked st s = ?s1"
    by (simp add: on_close_subtab_clicked_def)
  have b: "on_terminal_child_exited st s = ?s1"
    using assms(3,4) by (simp add: on_terminal_child_exited_def)
  have c: "\<exists>P1. project_mem ?s1 ?p = Some P1 \<and> \<not> initialized P1 \<and> subtabs P1 = [] \<and>
             saved_subtabs P1 = []"
    using P1 only saved assms(6) by simp
  have d: "subtab_mem ?s1 st = None" by (simp add: sm)
  have e: "\<exists>P2. project_mem (on_project_selected (Some ?p) ?s1) ?p = Some P2 \<and>
               initialized P2 \<and> subtabs P2 = [next_ptr s] \<and> saved_subtabs P2 = [] \<and>
               active_subtab P2 = Some (next_ptr s)"
    unfolding sel using only saved rest(2) by simp
  have f: "subtab_mem (on_project_selected (Some ?p) ?s1) (next_ptr s) =
             Some (new_subtab ?p ''Tab 1'')"
    unfolding sel using rest(2) by simp
  have g: "spawned (on_project_selected (Some ?p) ?s1) = spawned s @ [path P]"
    unfolding sel using rest(3) by simp
  show ?thesis
    using a b c d e f g by (intro conjI)
qed

theorem last_tab_close_reverts_witness:
  "(let s1 = on_terminal_child_exited 1 one_tab_app;
        s2 = on_project_selected (Some 0) s1;
        view = map_option (\<lambda>P. (initialized P, subtabs P, saved_subtabs P))
    in view (project_mem one_tab_app 0) = Some (True, [1], []) \<and>
       on_close_subtab_clicked 1 one_tab_app = s1 \<and>
       view (project_mem s1 0) = Some (False, [], []) \<and>
       view (project_mem s2 0) = Some (True, [2], []) \<and>
       map_option tab_name (subtab_mem s2 2) = Some ''Tab 1'' \<and>
       spawned s2 = [''/a'', ''/a''])"
proof -
  have w: "heap_ok one_tab_app" "lifecycle_ok one_tab_app"
    using well_formed_one_tab_app by (simp_all add: well_formed_def)
  have S: "\<not> closing (new_subtab 0 ''Tab 1'')" "parent_tab (new_subtab 0 ''Tab 1'') = 0"
    by (simp_all add: new_subtab_def)
  have P: "project_mem one_tab_app (parent_tab (new_subtab 0 ''Tab 1'')) = Some one_tab_project"
    by (simp add: S one_tab_app_project)
  have len: "length (subtabs one_tab_project) = 1" "path one_tab_project = ''/a''"
    "initialized one_tab_project" "subtabs one_tab_project = [1]"
    "saved_subtabs one_tab_project = []"
    by (simp_all add: one_tab_project_def new_project_def)
  show ?thesis
    using last_tab_close_reverts [OF w one_tab_app_subtab S(1) P len(1)]
    by (auto simp: Let_def S one_tab_app_fields one_tab_app_project len new_subtab_def)
qed

subsection \<open>Closing twice\<close>

text \<open>
  \<^bold>\<open>C8\<close> (idempotent close), as the claim states it: a second close of a SubTab, while or
  after it is closing, is a no-op. The guard of \<^verbatim>\<open>close_subtab\<close> and of
  \<^verbatim>\<open>on_terminal_child_exited\<close> reads \<^verbatim>\<open>subtab->closing\<close>, a field of the struct that
  the first close frees (main.c:1649). In \<open>one_tab_app\<close> the first close of the tab at
  address 1 reads allocated memory only, removes the tab, frees it and saves once; a
  second \<^verbatim>\<open>close_subtab\<close> on the same pointer, and likewise a second
  \<^verbatim>\<open>on_terminal_child_exited\<close>, reads the freed struct.
\<close>

theorem second_close_reads_freed_subtab:
  "(let s1 = close_subtab (Some 1) one_tab_app
    in \<not> invalid_deref one_tab_app \<and> \<not> invalid_deref s1 \<and>
       subtab_mem s1 1 = None \<and> freed s1 = [1] \<and> saves s1 = 1 \<and>
       invalid_deref (close_subtab (Some 1) s1) \<and>
       invalid_deref (on_close_subtab_clicked 1 s1) \<and>
       invalid_deref (on_terminal_child_exited 1 s1))"
  by code_simp



subsection \<open>What a drag gesture leaves alone\<close>

lemma on_tab_drag_begin_frame:
  "projects (on_tab_drag_begin p x hit s) = projects s \<and>
   next_ptr (on_tab_drag_begin p x hit s) = next_ptr s \<and>
   subtab_mem (on_tab_drag_begin p x hit s) = subtab_mem s \<and>
   saves (on_tab_drag_begin p x hit s) = saves s \<and>
   session_json (on_tab_drag_begin p x hit s) = session_json s \<and>
   (\<forall>q. map_option subtabs (project_mem (on_tab_drag_begin p x hit s) q) =
        map_option subtabs (project_mem s q))"
  by (cases "project_mem s p"; cases hit) (simp_all add: on_tab_drag_begin_def)

lemma on_tab_drag_update_frame:
  "projects (on_tab_drag_update p off b s) = projects s \<and>
   next_ptr (on_tab_drag_update p off b s) = next_ptr s \<and>
   dom (subtab_mem (on_tab_drag_update p off b s)) = dom (subtab_mem s) \<and>
   saves (on_tab_drag_update p off b s) = saves s \<and>
   session_json (on_tab_drag_update p off b s) = session_json s \<and>
   (\<forall>q. map_option subtabs (project_mem (on_tab_drag_update p off b s) q) =
        map_option subtabs (project_mem s q))"
proof (cases "project_mem s p")
  case None
  then show ?thesis by (simp add: on_tab_drag_update_def)
next
  case (Some P)
  show ?thesis
  proof (cases "drag_tab P")
    case None
    then show ?thesis using Some by (simp add: on_tab_drag_update_def)
  next
    case d: (Some d)
    show ?thesis
    proof (cases "drag_start_x P")
      case None
      then show ?thesis using Some d by (simp add: on_tab_drag_update_def)
    next
      case x: (Some x)
      show ?thesis
        using Some d x
        by (cases "subtab_mem s d")
           (auto simp: on_tab_drag_update_def Let_def update_project_def update_subtab_def)
    qed
  qed
qed

lemma drag_updates_frame:
  "projects (drag_updates p ups s) = projects s \<and>
   next_ptr (drag_updates p ups s) = next_ptr s \<and>
   dom (subtab_mem (drag_updates p ups s)) = dom (subtab_mem s) \<and>
   saves (drag_updates p ups s) = saves s \<and>
   session_json (drag_updates p ups s) = session_json s \<and>
   (\<forall>q. map_option subtabs (project_mem (drag_updates p ups s) q) =
        map_option subtabs (project_mem s q))"
proof (induction p ups s rule: drag_updates.induct)
  case (1 p s)
  then show ?case by simp
next
  case (2 p off b rest s)
  show ?case
    using 2 on_tab_drag_update_frame [of p off b s] by simp
qed

lemma on_tab_drag_end_frame:
  assumes "heap_ok s" "project_mem s p = Some P"
  shows "projects (on_tab_drag_end p s) = projects s \<and>
   next_ptr (on_tab_drag_end p s) = next_ptr s \<and>
   dom (subtab_mem (on_tab_drag_end p s)) = dom (subtab_mem s) \<and>
   (\<exists>P'. project_mem (on_tab_drag_end p s) p = Some P' \<and>
         mset (subtabs P') = mset (subtabs P))"
proof -
  have "subtabs_ok (subtab_mem s) p P"
    using heap_okD [OF assms(1)] assms(2) by (rule heap_inv_subtabs)
  then have box: "mset (tabs_box P) = mset (subtabs P)" by (simp add: subtabs_ok_def)
  show ?thesis
  proof (cases "drag_tab P")
    case None
    then show ?thesis using assms(2) by (simp add: on_tab_drag_end_def update_project_def)
  next
    case (Some d)
    then show ?thesis
      using assms(2) box
      by (cases "subtab_mem s d")
         (auto simp: on_tab_drag_end_def update_project_def update_subtab_def
            rebuild_subtabs_list_def Let_def)
  qed
qed

lemma well_formed_three_tab_app: "well_formed three_tab_app"
  unfolding three_tab_app_def
  by (intro well_formed_on_add_subtab_clicked well_formed_one_tab_app)

lemma three_tab_app_tabs:
  "map_option subtabs (project_mem three_tab_app 0) = Some [1, 2, 3]"
  "map_option tabs_box (project_mem three_tab_app 0) = Some [1, 2, 3]"
  "map_option drag_active (project_mem three_tab_app 0) = Some False"
  "saves three_tab_app = 0"
  by code_simp+

subsection \<open>A drag keeps the tabs\<close>

text \<open>
  \<^bold>\<open>C10\<close> (reorder commit is a permutation). In a well-formed state, after any gesture
  on the strip of a project (whatever was picked, whatever the offsets and layouts of the
  updates, so also one that crosses the threshold and reorders), the project's SubTab
  list holds the same SubTabs as before, each exactly once: it is a permutation of the
  list before the gesture. No SubTab is allocated or freed by the gesture.
\<close>

theorem reorder_commit_is_permutation:
  assumes "well_formed s" and "project_mem s p = Some P"
  shows "\<exists>P'. project_mem (drag_gesture p start_x hit ups s) p = Some P' \<and>
              mset (subtabs P') = mset (subtabs P) \<and>
              set (subtabs P') = set (subtabs P) \<and>
              length (subtabs P') = length (subtabs P) \<and>
              distinct (subtabs P') \<and>
              dom (subtab_mem (drag_gesture p start_x hit ups s)) = dom (subtab_mem s) \<and>
              next_ptr (drag_gesture p start_x hit ups s) = next_ptr s"
proof -
  let ?b = "on_tab_drag_begin p start_x hit s"
  let ?u = "drag_updates p ups ?b"
  have wu: "well_formed ?u"
    using assms(1) by (intro well_formed_drag_updates well_formed_on_tab_drag_begin)
  then have hu: "heap_ok ?u" by (simp add: well_formed_def)
  have "map_option subtabs (project_mem ?u p) = map_option subtabs (project_mem s p)"
    using drag_updates_frame [of p ups ?b] on_tab_drag_begin_frame [of p start_x hit s] by simp
  then obtain Pu where Pu: "project_mem ?u p = Some Pu" and same: "subtabs Pu = subtabs P"
    using assms(2) by auto
  from on_tab_drag_end_frame [OF hu Pu] obtain P' where
    P': "project_mem (on_tab_drag_end p ?u) p = Some P'"
    and m: "mset (subtabs P') = mset (subtabs P)"
    and d: "dom (subtab_mem (on_tab_drag_end p ?u)) = dom (subtab_mem ?u)"
    and n: "next_ptr (on_tab_drag_end p ?u) = next_ptr ?u"
    using same by auto
  have "subtabs_ok (subtab_mem s) p P"
    using assms by (intro heap_inv_subtabs [OF heap_okD]) (simp_all add: well_formed_def)
  then have "distinct (subtabs P)" by (simp add: subtabs_ok_def)
  then have dist: "distinct (subtabs P')"
    using mset_eq_imp_distinct_iff [OF m] by simp
  have "dom (subtab_mem ?u) = dom (subtab_mem s)" "next_ptr ?u = next_ptr s"
    using drag_updates_frame [of p ups ?b] on_tab_drag_begin_frame [of p start_x hit s]
    by simp_all
  then show ?thesis
    using P' m dist d n mset_eq_setD [OF m] mset_eq_length [OF m]
    by (simp add: drag_gesture_def)
qed

lemma three_tab_app_gesture:
  "map_option subtabs (project_mem
     (drag_gesture 0 150 (Pick_tab 2)
        [(3, strip_layout [1, 2, 3]), (110, strip_layout [1, 2, 3])] three_tab_app) 0) =
   Some [1, 3, 2]"
  by code_simp

theorem reorder_commit_is_permutation_witness:
  "(let view = (\<lambda>s. map_option subtabs (project_mem s 0))
    in view three_tab_app = Some [1, 2, 3] \<and>
       view (drag_gesture 0 150 (Pick_tab 2)
               [(3, strip_layout [1, 2, 3]), (110, strip_layout [1, 2, 3])] three_tab_app) =
         Some [1, 3, 2])"
proof -
  obtain P where P: "project_mem three_tab_app 0 = Some P" and tabs: "subtabs P = [1, 2, 3]"
    using three_tab_app_tabs(1) by auto
  show ?thesis
    using reorder_commit_is_permutation [OF well_formed_three_tab_app P, of 150 "Pick_tab 2"
            "[(3, strip_layout [1, 2, 3]), (110, strip_layout [1, 2, 3])]"]
          three_tab_app_gesture three_tab_app_tabs(1)
    by (simp add: Let_def)
qed

subsection \<open>Crossing a midpoint changes the order of the strip\<close>













subsection \<open>The drag threshold\<close>





subsection \<open>Loading keeps the state well formed\<close>

lemma load_project_valid:
  assumes "json_object_get_string_member obj ''name'' = Some nm"
    and "json_object_get_string_member obj ''path'' = Some pth"
  shows "load_project (JObject obj) s =
           (create_project nm pth False s)
             \<lparr>project_mem := (project_mem s)(next_ptr s \<mapsto>
                 loaded_project obj nm pth (length (projects s)))\<rparr>"
proof -
  define base where "base = create_project nm pth False s"
  define Q0 where "Q0 = new_project nm pth (length (projects s))"
  have s1: "create_project nm pth False s = base\<lparr>project_mem := (project_mem s)(next_ptr s \<mapsto> Q0)\<rparr>"
    by (simp add: base_def Q0_def)
  have up: "update_project (next_ptr s) f (base\<lparr>project_mem := (project_mem s)(next_ptr s \<mapsto> Q)\<rparr>) =
            base\<lparr>project_mem := (project_mem s)(next_ptr s \<mapsto> f Q)\<rparr>" for f Q
    by (simp add: update_project_def)
  have "load_project (JObject obj) s =
        base\<lparr>project_mem := (project_mem s)(next_ptr s \<mapsto>
               loaded_project obj nm pth (length (projects s)))\<rparr>"
    using assms
    by (simp add: load_project_def json_array_get_object_element_def Let_def s1 up)
       (simp add: loaded_project_def Q0_def new_project_def)
  then show ?thesis by (simp add: s1)
qed

lemma load_project_invalid:
  assumes "\<not> (\<exists>obj nm pth. e = JObject obj \<and>
               json_object_get_string_member obj ''name'' = Some nm \<and>
               json_object_get_string_member obj ''path'' = Some pth)"
  shows "load_project e s = s"
  using assms
  by (cases e) (auto simp: load_project_def json_array_get_object_element_def split: option.splits)

lemma lifecycle_loaded_project [simp]: "lifecycle (loaded_project obj nm pth k)"
  by (simp add: lifecycle_def loaded_project_def new_project_def)

lemma loaded_project_fields [simp]:
  "subtabs (loaded_project obj nm pth k) = []" "tabs_box (loaded_project obj nm pth k) = []"
  "\<not> initialized (loaded_project obj nm pth k)"
  "name (loaded_project obj nm pth k) = nm" "path (loaded_project obj nm pth k) = pth"
  "insert_order (loaded_project obj nm pth k) = int k"
  by (simp_all add: loaded_project_def new_project_def)

lemma well_formed_load_project:
  assumes "well_formed s"
  shows "well_formed (load_project e s)"
proof (cases "\<exists>obj nm pth. e = JObject obj \<and>
               json_object_get_string_member obj ''name'' = Some nm \<and>
               json_object_get_string_member obj ''path'' = Some pth")
  case False
  then show ?thesis using assms by (simp add: load_project_invalid)
next
  case True
  then obtain obj nm pth where e: "e = JObject obj"
    and nm: "json_object_get_string_member obj ''name'' = Some nm"
    and pth: "json_object_get_string_member obj ''path'' = Some pth"
    by blast
  have h: "heap_ok s" and l: "lifecycle_ok s" using assms by (simp_all add: well_formed_def)
  let ?Q = "loaded_project obj nm pth (length (projects s))"
  show ?thesis
  proof (rule well_formedI)
    show "heap_ok (load_project e s)"
      using heap_inv_add_project [OF heap_okD [OF h], of ?Q]
      by (simp add: e load_project_valid [OF nm pth] heap_ok_def)
    show "lifecycle_ok (load_project e s)"
      using l by (simp add: e load_project_valid [OF nm pth] lifecycle_ok_def)
  qed
qed

lemma well_formed_load_projects:
  "well_formed s \<Longrightarrow> well_formed (load_projects es s)"
  by (induction es arbitrary: s) (simp_all add: well_formed_load_project)

lemma well_formed_load_legacy_line:
  assumes "well_formed s"
  shows "well_formed (load_legacy_line buffer s)"
proof -
  have "well_formed (update_project (next_ptr s) (\<lambda>Q. Q\<lparr>last_used := stamp\<rparr>)
          (create_project nm pth False s))" for stamp nm pth
    using assms
    by (intro well_formed_update_project well_formed_create_project) (auto simp: lifecycle_def)
  then show ?thesis
    using assms by (simp add: load_legacy_line_def Let_def)
qed

lemma well_formed_load_legacy_lines:
  "well_formed s \<Longrightarrow> well_formed (load_legacy_lines buffers s)"
  by (induction buffers arbitrary: s) (simp_all add: well_formed_load_legacy_line)

lemma well_formed_load_legacy_sort:
  "well_formed s \<Longrightarrow> well_formed (load_legacy_sort s)"
  by (simp add: load_legacy_sort_def Let_def split: option.splits)

lemma well_formed_load_session:
  assumes "well_formed s"
  shows "well_formed (load_session s)"
proof (cases "session_json s")
  case No_file
  then show ?thesis
    using assms
    by (cases "legacy_projects s")
       (simp_all add: load_session_def well_formed_load_legacy_sort well_formed_load_legacy_lines)
next
  case Unparseable
  then show ?thesis using assms by (simp add: load_session_def)
next
  case (Parsed root_node)
  show ?thesis
  proof (cases "\<exists>root_obj. root_node = Some (JObject root_obj)")
    case False
    then have "load_session s = s"
      using Parsed by (auto simp: load_session_def split: option.splits json.splits)
    then show ?thesis using assms by simp
  next
    case True
    then obtain root_obj where r: "root_node = Some (JObject root_obj)" by blast
    define s1 where "s1 = (if json_object_has_member root_obj ''sort_mode'' then
                            (let mode_str = json_object_get_string_member root_obj ''sort_mode''
                             in s\<lparr>sort_mode :=
                                   (if mode_str = Some ''alpha'' then SORT_ALPHA
                                    else if mode_str = Some ''mru'' then SORT_MRU
                                    else SORT_NONE)\<rparr>)
                          else s)"
    define s2 where "s2 = load_projects
                            (json_array_elements
                               (json_object_get_array_member root_obj ''projects'')) s1"
    define k where "k = guint_of_int
                      (if json_object_has_member root_obj ''active_project_index''
                       then int_of_gint64
                              (json_object_get_int_member root_obj ''active_project_index'')
                       else 0)"
    have w1: "well_formed s1" using assms by (simp add: s1_def Let_def)
    then have w2: "well_formed s2" unfolding s2_def by (rule well_formed_load_projects)
    have eq: "load_session s =
              (if \<not> json_object_has_member root_obj ''projects'' then s1
               else case g_list_nth (projects s2) k of
                      None \<Rightarrow> s2
                    | Some active_proj \<Rightarrow>
                        (case project_mem s2 active_proj of
                           None \<Rightarrow> fault (s2\<lparr>active_project := Some active_proj\<rparr>)
                         | Some A \<Rightarrow>
                             gtk_list_box_select_row active_proj
                               (s2\<lparr>active_project := Some active_proj\<rparr>)))"
      unfolding s1_def s2_def k_def using Parsed r
      by (simp add: load_session_def Let_def cong: if_cong option.case_cong)
    have sel: "well_formed (gtk_list_box_select_row a (s2\<lparr>active_project := Some a\<rparr>))" for a
      using w2 by (intro well_formed_gtk_list_box_select_row) (simp add: well_formed_def)
    show ?thesis
      using w1 w2 sel by (simp add: eq split: option.splits)
  qed
qed

lemma well_formed_on_subtab_button_clicked:
  "well_formed s \<Longrightarrow> well_formed (on_subtab_button_clicked st s)"
  by (cases "subtab_mem s st")
     (auto simp: on_subtab_button_clicked_def lifecycle_def intro!: well_formed_update_project)

lemma well_formed_perform:
  assumes "well_formed s"
  shows "well_formed (perform op s)"
proof (cases op)
  case (Directory_changed st dir)
  have "perform op s = (case subtab_mem s st of None \<Rightarrow> s
          | Some S \<Rightarrow> update_subtab st (\<lambda>S. S\<lparr>current_directory := dir\<rparr>) s)"
    by (simp add: Directory_changed update_subtab_def split: option.splits)
  then show ?thesis
    using assms by (simp add: well_formed_update_subtab split: option.splits)
next
  case (Clock now)
  then show ?thesis
    using assms by (simp add: well_formed_def heap_ok_def lifecycle_ok_def)
qed (use assms in \<open>simp_all add: well_formed_load_session well_formed_apply_sort
      well_formed_create_project well_formed_on_folder_selected well_formed_on_project_selected
      well_formed_gtk_list_box_select_row well_formed_on_add_subtab_clicked
      on_sidebar_add_subtab_clicked_def well_formed_on_subtab_button_clicked
      well_formed_close_subtab well_formed_close_handlers well_formed_on_terminal_title_changed
      well_formed_on_remove_project_clicked well_formed_on_sort_clicked
      well_formed_on_tab_drag_begin well_formed_on_tab_drag_update well_formed_on_tab_drag_end\<close>)

lemma well_formed_perform_all:
  "well_formed s \<Longrightarrow> well_formed (perform_all ops s)"
  by (induction ops arbitrary: s) (simp_all add: well_formed_perform)

subsection \<open>The two states of a project\<close>

text \<open>
  \<^bold>\<open>C2\<close> (mutual-exclusivity invariant). Start from the state \<^verbatim>\<open>activate\<close> builds and
  perform any sequence of operations: \<^verbatim>\<open>load_session\<close>, \<^verbatim>\<open>create_project\<close>,
  \<^verbatim>\<open>on_project_selected\<close> and the selection of a sidebar row, adding a SubTab, closing one
  (by the button or by the exit of the child), removing a project, sorting, dragging,
  saving, and the changes of the environment. After the last operation has completed,
  every allocated project is either initialized with at least one live SubTab and no
  pending descriptor, or uninitialized with no live SubTab.
\<close>

theorem mutual_exclusivity:
  assumes "project_mem (perform_all ops (fresh_app file legacy sortc now)) p = Some P"
  shows "(initialized P \<and> subtabs P \<noteq> [] \<and> saved_subtabs P = []) \<or>
         (\<not> initialized P \<and> subtabs P = [])"
proof -
  have "well_formed (perform_all ops (fresh_app file legacy sortc now))"
    by (intro well_formed_perform_all well_formed_fresh_app)
  then have "lifecycle P"
    using assms by (simp add: well_formed_def lifecycle_ok_def)
  then show ?thesis by (simp add: lifecycle_def)
qed

lemma two_project_session_loaded:
  "map (map_option (\<lambda>P. (initialized P, subtabs P, saved_subtabs P)) \<circ>
        project_mem (perform_all [Load_session, Clock 5]
                       (fresh_app (Parsed (Some two_project_session)) None None 0)))
     [0, 1] =
   [Some (True, [2], []), Some (False, [], [\<lparr>saved_name = ''x'', working_dir = ''/x''\<rparr>])]"
  by code_simp

theorem mutual_exclusivity_witness:
  "(let s = perform_all [Load_session, Clock 5]
              (fresh_app (Parsed (Some two_project_session)) None None 0);
        view = map_option (\<lambda>P. (initialized P, subtabs P, saved_subtabs P))
    in view (project_mem s 0) = Some (True, [2], []) \<and>
       view (project_mem s 1) = Some (False, [], [\<lparr>saved_name = ''x'', working_dir = ''/x''\<rparr>]))"
proof -
  let ?s = "perform_all [Load_session, Clock 5]
              (fresh_app (Parsed (Some two_project_session)) None None 0)"
  obtain P0 P1 where P: "project_mem ?s 0 = Some P0" "project_mem ?s 1 = Some P1"
    and v0: "initialized P0" "subtabs P0 = [2]"
    and v1: "\<not> initialized P1" "saved_subtabs P1 = [\<lparr>saved_name = ''x'', working_dir = ''/x''\<rparr>]"
    using two_project_session_loaded by auto
  from mutual_exclusivity [OF P(1)] mutual_exclusivity [OF P(2)] v0 v1
  have "saved_subtabs P0 = []" "subtabs P1 = []" by auto
  then show ?thesis using P v0 v1 by (simp add: Let_def)
qed

subsection \<open>Loading creates dormant projects and selects one\<close>

lemma load_project_cases:
  obtains (skipped) "load_project e s = s"
  | (loaded) obj nm pth where "e = JObject obj"
      "json_object_get_string_member obj ''name'' = Some nm"
      "json_object_get_string_member obj ''path'' = Some pth"
      "load_project e s =
         (create_project nm pth False s)
           \<lparr>project_mem := (project_mem s)(next_ptr s \<mapsto>
               loaded_project obj nm pth (length (projects s)))\<rparr>"
proof (cases "\<exists>obj nm pth. e = JObject obj \<and>
               json_object_get_string_member obj ''name'' = Some nm \<and>
               json_object_get_string_member obj ''path'' = Some pth")
  case False
  then show ?thesis by (intro skipped load_project_invalid)
next
  case True
  then obtain obj nm pth where e: "e = JObject obj"
    and nm: "json_object_get_string_member obj ''name'' = Some nm"
    and pth: "json_object_get_string_member obj ''path'' = Some pth"
    by blast
  show ?thesis
    using loaded [OF e nm pth] load_project_valid [OF nm pth, of s] e by simp
qed

lemma load_project_fields [simp]:
  "subtab_mem (load_project e s) = subtab_mem s"
  "spawned (load_project e s) = spawned s"
  "selected_row (load_project e s) = selected_row s"
  "sort_mode (load_project e s) = sort_mode s"
  "real_time (load_project e s) = real_time s"
  by (cases e s rule: load_project_cases; simp)+

lemma load_projects_fields [simp]:
  "subtab_mem (load_projects es s) = subtab_mem s"
  "spawned (load_projects es s) = spawned s"
  "selected_row (load_projects es s) = selected_row s"
  "sort_mode (load_projects es s) = sort_mode s"
  "real_time (load_projects es s) = real_time s"
  by (induction es arbitrary: s) simp_all

lemma dormant_load_project:
  assumes "\<And>p P. project_mem s p = Some P \<Longrightarrow> \<not> initialized P \<and> subtabs P = []"
    and "project_mem (load_project e s) p = Some P"
  shows "\<not> initialized P \<and> subtabs P = []"
proof (cases e s rule: load_project_cases)
  case skipped
  then show ?thesis using assms by simp
next
  case (loaded obj nm pth)
  then show ?thesis
    using assms(2) assms(1) [of p P] by (cases "p = next_ptr s") auto
qed

lemma dormant_load_projects:
  assumes "\<And>p P. project_mem s p = Some P \<Longrightarrow> \<not> initialized P \<and> subtabs P = []"
    and "project_mem (load_projects es s) p = Some P"
  shows "\<not> initialized P \<and> subtabs P = []"
  using assms
proof (induction es arbitrary: s)
  case Nil
  then show ?case by simp
next
  case (Cons e es)
  show ?case
  proof (rule Cons.IH [of "load_project e s"])
    show "\<not> initialized Q \<and> subtabs Q = []" if "project_mem (load_project e s) q = Some Q" for q Q
      using Cons.prems(1) that by (rule dormant_load_project)
    show "project_mem (load_projects es (load_project e s)) p = Some P"
      using Cons.prems(2) by simp
  qed
qed

lemma on_project_selected_dormant:
  assumes P: "project_mem s p = Some P" and listed: "p \<in> set (projects s)"
    and uninit: "\<not> initialized P" and none: "subtabs P = []"
  shows "\<exists>A. project_mem (on_project_selected (Some p) s) = (project_mem s)(p \<mapsto> A) \<and>
             initialized A \<and> subtabs A \<noteq> [] \<and> saved_subtabs A = [] \<and>
             name A = name P \<and> path A = path P \<and> last_used A = real_time s \<and>
             insert_order A = insert_order P \<and>
             length (subtabs A) =
               length (if saved_subtabs P = [] then [path P]
                       else map working_dir (saved_subtabs P)) \<and>
             dom (subtab_mem (on_project_selected (Some p) s)) =
               dom (subtab_mem s) \<union> set (subtabs A)"
    and "spawned (on_project_selected (Some p) s) =
           spawned s @ (if saved_subtabs P = [] then [path P]
                        else map working_dir (saved_subtabs P))"
    and "projects (on_project_selected (Some p) s) = projects s"
    and "sort_mode (on_project_selected (Some p) s) = sort_mode s"
    and "active_project (on_project_selected (Some p) s) = Some p"
proof -
  have own: "\<forall>st \<in> set (subtabs P). st < next_ptr s \<and>
                (\<exists>S. subtab_mem s st = Some S \<and> parent_tab S = p)"
    using none by simp
  note d = on_project_selected_default [OF P listed uninit]
  note r = on_project_selected_restore [OF P listed uninit _ own]
  show "\<exists>A. project_mem (on_project_selected (Some p) s) = (project_mem s)(p \<mapsto> A) \<and>
             initialized A \<and> subtabs A \<noteq> [] \<and> saved_subtabs A = [] \<and>
             name A = name P \<and> path A = path P \<and> last_used A = real_time s \<and>
             insert_order A = insert_order P \<and>
             length (subtabs A) =
               length (if saved_subtabs P = [] then [path P]
                       else map working_dir (saved_subtabs P)) \<and>
             dom (subtab_mem (on_project_selected (Some p) s)) =
               dom (subtab_mem s) \<union> set (subtabs A)"
  proof (cases "saved_subtabs P = []")
    case True
    show ?thesis
      unfolding d [OF True] using True none
      by (intro exI [of _ "P\<lparr>last_used := real_time s,
                 tabs_box := tabs_box P @ [next_ptr s],
                 subtabs := subtabs P @ [next_ptr s],
                 active_subtab := Some (next_ptr s),
                 subtab_counter := 1,
                 initialized := True\<rparr>"]) simp
  next
    case False
    have "dom (\<lambda>a. if next_ptr s \<le> a \<and> a < next_ptr s + length (saved_subtabs P)
                    then Some (new_subtab p (saved_name (saved_subtabs P ! (a - next_ptr s))))
                    else subtab_mem s a) =
          dom (subtab_mem s) \<union> {next_ptr s ..< next_ptr s + length (saved_subtabs P)}"
      by (auto simp: dom_def)
    then show ?thesis
      unfolding r [OF False] using False none
      by (intro exI [of _ "P\<lparr>last_used := real_time s,
                 tabs_box := tabs_box P @
                   [next_ptr s ..< next_ptr s + length (saved_subtabs P)],
                 subtabs := subtabs P @
                   [next_ptr s ..< next_ptr s + length (saved_subtabs P)],
                 active_subtab :=
                   (case g_list_nth
                           (subtabs P @ [next_ptr s ..< next_ptr s + length (saved_subtabs P)])
                           (guint_of_int (saved_active_subtab P)) of
                      None \<Rightarrow> Some (next_ptr s + length (saved_subtabs P) - 1)
                    | Some a \<Rightarrow> Some a),
                 subtab_counter := int (length (saved_subtabs P)),
                 saved_subtabs := [],
                 initialized := True\<rparr>"]) simp
  qed
  show "spawned (on_project_selected (Some p) s) =
           spawned s @ (if saved_subtabs P = [] then [path P]
                        else map working_dir (saved_subtabs P))"
    using d r by (cases "saved_subtabs P = []") simp_all
  show "projects (on_project_selected (Some p) s) = projects s"
    using d r by (cases "saved_subtabs P = []") simp_all
  show "sort_mode (on_project_selected (Some p) s) = sort_mode s"
    using d r by (cases "saved_subtabs P = []") simp_all
  show "active_project (on_project_selected (Some p) s) = Some p"
    using d r by (cases "saved_subtabs P = []") simp_all
qed

lemma load_session_object:
  assumes "session_json s = Parsed (Some (JObject root_obj))"
    and "json_object_has_member root_obj ''projects''"
  shows "load_session s =
           (let s2 = load_projects
                       (json_array_elements (json_object_get_array_member root_obj ''projects''))
                       (s\<lparr>sort_mode := session_sort_mode root_obj (sort_mode s)\<rparr>)
            in case g_list_nth (projects s2) (session_active_index root_obj) of
                 None \<Rightarrow> s2
               | Some active_proj \<Rightarrow>
                   (case project_mem s2 active_proj of
                      None \<Rightarrow> fault (s2\<lparr>active_project := Some active_proj\<rparr>)
                    | Some A \<Rightarrow>
                        gtk_list_box_select_row active_proj
                          (s2\<lparr>active_project := Some active_proj\<rparr>)))"
proof -
  have "(if json_object_has_member root_obj ''sort_mode'' then
           (let mode_str = json_object_get_string_member root_obj ''sort_mode''
            in s\<lparr>sort_mode :=
                  (if mode_str = Some ''alpha'' then SORT_ALPHA
                   else if mode_str = Some ''mru'' then SORT_MRU
                   else SORT_NONE)\<rparr>)
         else s) = s\<lparr>sort_mode := session_sort_mode root_obj (sort_mode s)\<rparr>"
    by (simp add: session_sort_mode_def Let_def)
  then show ?thesis
    using assms
    by (simp add: load_session_def session_active_index_def Let_def
             cong: if_cong option.case_cong)
qed

lemma load_session_no_projects:
  assumes "session_json s = Parsed (Some (JObject root_obj))"
    and "\<not> json_object_has_member root_obj ''projects''"
  shows "load_session s = s\<lparr>sort_mode := session_sort_mode root_obj (sort_mode s)\<rparr>"
  using assms by (simp add: load_session_def session_sort_mode_def Let_def)

lemma load_session_not_object_root:
  assumes "session_json s = Parsed root_node"
    and "\<not> (\<exists>root_obj. root_node = Some (JObject root_obj))"
  shows "load_session s = s"
  using assms by (auto simp: load_session_def split: option.splits json.splits)

lemma load_legacy_line_cases:
  obtains (skipped) "load_legacy_line buffer s = s"
  | (loaded) nm pth stamp where
      "load_legacy_line buffer s =
         (create_project nm pth False s)
           \<lparr>project_mem := (project_mem s)(next_ptr s \<mapsto>
               (new_project nm pth (length (projects s)))\<lparr>last_used := stamp\<rparr>)\<rparr>"
proof -
  define line where
    "line = (if buffer \<noteq> [] \<and> last buffer = CHR 0x0A then butlast buffer else buffer)"
  define pre where "pre = takeWhile (\<lambda>c. c \<noteq> CHR ''|'') line"
  define stamp where "stamp = (if pre \<noteq> line \<and> pre \<noteq> [] then g_ascii_strtoll pre else 0)"
  define pth where "pth = (if pre \<noteq> line \<and> pre \<noteq> [] then drop (Suc (length pre)) line
                           else line)"
  have up: "update_project (next_ptr s) f (create_project nm pth False s) =
            (create_project nm pth False s)
              \<lparr>project_mem := (project_mem s)(next_ptr s \<mapsto>
                  f (new_project nm pth (length (projects s))))\<rparr>" for f nm pth
    by (simp add: update_project_def)
  have eq: "load_legacy_line buffer s =
            (if line = [] then s
             else update_project (next_ptr s) (\<lambda>Q. Q\<lparr>last_used := stamp\<rparr>)
                    (create_project (g_path_get_basename pth) pth False s))"
    unfolding pth_def stamp_def pre_def line_def
    by (simp add: load_legacy_line_def Let_def)
  show ?thesis
  proof (cases "line = []")
    case True
    then show ?thesis using eq by (intro skipped) simp
  next
    case False
    then show ?thesis
      using eq
      by (intro loaded [where nm = "g_path_get_basename pth" and pth = pth and stamp = stamp])
         (simp add: up)
  qed
qed

lemma dormant_fresh_app: "dormant (fresh_app file legacy sortc now)"
  by (simp add: dormant_def fresh_app_def)

lemma dormant_load_projects_all:
  assumes "dormant s"
  shows "dormant (load_projects es s)"
proof -
  have a: "\<not> initialized P \<and> subtabs P = []" if "project_mem s p = Some P" for p P
    using assms that by (simp add: dormant_def)
  have "\<not> initialized P \<and> subtabs P = []"
    if "project_mem (load_projects es s) p = Some P" for p P
    using a that by (rule dormant_load_projects)
  then show ?thesis using assms by (simp add: dormant_def)
qed

lemma load_legacy_line_fields [simp]:
  "subtab_mem (load_legacy_line buffer s) = subtab_mem s"
  "spawned (load_legacy_line buffer s) = spawned s"
  "selected_row (load_legacy_line buffer s) = selected_row s"
  by (cases buffer s rule: load_legacy_line_cases; simp)+

lemma dormant_load_legacy_line:
  assumes "dormant s"
  shows "dormant (load_legacy_line buffer s)"
proof (cases buffer s rule: load_legacy_line_cases)
  case skipped
  then show ?thesis using assms by simp
next
  case (loaded nm pth stamp)
  have "\<not> initialized P \<and> subtabs P = []"
    if "project_mem (load_legacy_line buffer s) p = Some P" for p P
    using that assms unfolding dormant_def loaded
    by (cases "p = next_ptr s") (auto simp: new_project_def)
  then show ?thesis
    using assms unfolding dormant_def by auto
qed

lemma dormant_load_legacy_lines: "dormant s \<Longrightarrow> dormant (load_legacy_lines buffers s)"
  by (induction buffers arbitrary: s) (simp_all add: dormant_load_legacy_line)

lemma dormant_simps [simp]:
  "dormant (s\<lparr>sort_mode := m\<rparr>) = dormant s"
  "dormant (save_session s) = dormant s"
  by (simp_all add: dormant_def)

lemma dormant_load_legacy_sort: "dormant s \<Longrightarrow> dormant (load_legacy_sort s)"
  by (simp add: load_legacy_sort_def Let_def split: option.splits)

lemma load_session_lazy:
  assumes d: "dormant s" and w: "well_formed s"
  obtains (dormant) "dormant (load_session s)"
      "\<not> (\<exists>root_obj. session_json s = Parsed (Some (JObject root_obj)) \<and>
            json_object_has_member root_obj ''projects'' \<and>
            session_active_index root_obj < length (projects (load_session s)))"
  | (selected) a A where "active_project (load_session s) = Some a"
      "project_mem (load_session s) a = Some A" "initialized A"
      "\<And>p P. project_mem (load_session s) p = Some P \<Longrightarrow> p \<noteq> a \<Longrightarrow> \<not> initialized P"
      "length (spawned (load_session s)) = length (subtabs A)"
      "dom (subtab_mem (load_session s)) = set (subtabs A)"
      "spawned (load_session s) \<noteq> []"
proof (cases "session_json s")
  case No_file
  have "dormant (load_session s)"
    using d No_file
    by (cases "legacy_projects s")
       (simp_all add: load_session_def dormant_load_legacy_sort dormant_load_legacy_lines)
  then show ?thesis using No_file by (intro dormant) simp_all
next
  case Unparseable
  then show ?thesis using d by (intro dormant) (simp_all add: load_session_def)
next
  case (Parsed root_node)
  show ?thesis
  proof (cases "\<exists>root_obj. root_node = Some (JObject root_obj)")
    case False
    then have "load_session s = s" using Parsed by (intro load_session_not_object_root)
    then show ?thesis using d Parsed False by (intro dormant) auto
  next
    case True
    then obtain root_obj where r: "session_json s = Parsed (Some (JObject root_obj))"
      using Parsed by blast
    show ?thesis
    proof (cases "json_object_has_member root_obj ''projects''")
      case False
      then show ?thesis
        using d r by (intro dormant) (simp_all add: load_session_no_projects [OF r False])
    next
      case has: True
      define s2 where "s2 = load_projects
                       (json_array_elements (json_object_get_array_member root_obj ''projects''))
                       (s\<lparr>sort_mode := session_sort_mode root_obj (sort_mode s)\<rparr>)"
      have d2: "dormant s2"
        unfolding s2_def using d by (intro dormant_load_projects_all) simp
      have w2: "well_formed s2"
        unfolding s2_def using w by (intro well_formed_load_projects) simp
      note eq = load_session_object [OF r has, unfolded Let_def, folded s2_def]
      show ?thesis
      proof (cases "g_list_nth (projects s2) (session_active_index root_obj)")
        case None
        then have t: "load_session s = s2" by (simp add: eq)
        have "\<not> session_active_index root_obj < length (projects s2)"
          using None by (simp add: g_list_nth_def split: if_splits)
        then show ?thesis using d2 r by (intro dormant) (simp_all add: t)
      next
        case (Some a)
        then have listed: "a \<in> set (projects s2)"
          by (auto simp: g_list_nth_def split: if_splits)
        have h2: "heap_ok s2" using w2 by (simp add: well_formed_def)
        from heap_inv_listed [OF heap_okD [OF h2], of a] listed
        obtain A0 where A0: "project_mem s2 a = Some A0" by auto
        define s3 where "s3 = s2\<lparr>active_project := Some a, selected_row := Some a\<rparr>"
        have t: "load_session s = on_project_selected (Some a) s3"
          using d2 by (simp add: eq Some A0 gtk_list_box_select_row_def s3_def dormant_def)
        have A3: "project_mem s3 a = Some A0" "a \<in> set (projects s3)"
          using A0 listed by (simp_all add: s3_def)
        have un: "\<not> initialized A0" "subtabs A0 = []"
          using d2 A0 by (auto simp: dormant_def)
        have rest: "\<not> initialized P" if "project_mem s3 p = Some P" for p P
          using d2 that by (auto simp: dormant_def s3_def)
        have quiet: "spawned s3 = []" "subtab_mem s3 = Map.empty"
          using d2 by (simp_all add: dormant_def s3_def)
        from on_project_selected_dormant(1) [OF A3 un] obtain A where
          pm: "project_mem (on_project_selected (Some a) s3) = (project_mem s3)(a \<mapsto> A)"
          and A: "initialized A"
            "length (subtabs A) = length (if saved_subtabs A0 = [] then [path A0]
                                          else map working_dir (saved_subtabs A0))"
            "dom (subtab_mem (on_project_selected (Some a) s3)) =
               dom (subtab_mem s3) \<union> set (subtabs A)"
          by blast
        note sp = on_project_selected_dormant(2) [OF A3 un]
        note ac = on_project_selected_dormant(5) [OF A3 un]
        show ?thesis
        proof (rule selected [of a A])
          show "active_project (load_session s) = Some a" by (simp add: t ac)
          show "project_mem (load_session s) a = Some A" by (simp add: t pm)
          show "initialized A" by (rule A(1))
          show "\<not> initialized P" if "project_mem (load_session s) p = Some P" "p \<noteq> a" for p P
            using that rest [of p P] by (simp add: t pm)
          show "length (spawned (load_session s)) = length (subtabs A)"
            by (simp add: t sp quiet A(2))
          show "dom (subtab_mem (load_session s)) = set (subtabs A)"
            by (simp add: t A(3) quiet)
          show "spawned (load_session s) \<noteq> []" by (simp add: t sp)
        qed
      qed
    qed
  qed
qed

lemma on_add_subtab_clicked_spawned:
  assumes "project_mem s p = Some P" "\<not> initialized P"
  shows "spawned (on_add_subtab_clicked p s) = spawned s @ [path P]"
proof -
  have "project_mem (free_saved_subtabs p s) p = Some (P\<lparr>saved_subtabs := []\<rparr>)"
    using assms(1) by (simp add: free_saved_subtabs_def update_project_mem)
  from create_subtab_Some [OF this, of "''Tab 1''" "path P"]
  have "spawned (create_subtab p ''Tab 1'' (path P) (free_saved_subtabs p s)) =
        spawned s @ [path P]"
    by (simp add: free_saved_subtabs_def)
  then show ?thesis
    using assms by (simp add: on_add_subtab_clicked_def)
qed

subsection \<open>What loading a session spawns\<close>

text \<open>
  \<^bold>\<open>C3\<close> (lazy initialization), as the claim states it: after \<^verbatim>\<open>load_session\<close> has
  restored a session with projects, no terminal spawn has been asked for. The session
  file \<open>two_project_session\<close> holds two projects; \<^verbatim>\<open>load_session\<close> selects the row of
  the project at the saved index (0 when the member is missing), the sidebar emits
  \<^verbatim>\<open>row-selected\<close>, and \<^verbatim>\<open>on_project_selected\<close> creates the SubTab \<open>Tab 1\<close> of
  project \<open>a\<close>: one spawn, in \<open>/a\<close>, has been asked for when \<^verbatim>\<open>load_session\<close> returns.
\<close>

theorem load_session_spawns_active_project:
  "(let t = load_session (fresh_app (Parsed (Some two_project_session)) None None 0)
    in length (projects t) = 2 \<and> spawned t = [''/a''] \<and>
       map_option tab_name (subtab_mem t 2) = Some ''Tab 1'' \<and>
       map_option initialized (project_mem t 0) = Some True)"
  by code_simp

text \<open>
  \<^bold>\<open>C3\<close>, amended. Let \<open>t\<close> be the state after \<^verbatim>\<open>load_session\<close> on the startup state.

  \<^item> An initialized project of \<open>t\<close> is the active project, every spawn asked for so far is
    one of its SubTabs, and no other SubTab is allocated.
  \<^item> Every other project is uninitialized without live SubTab; selecting it spawns its
    pending descriptors' terminals (one terminal in the project's path when it has no
    descriptor), and its add button spawns one terminal in the project's path.
  \<^item> When no project of \<open>t\<close> is initialized, nothing was spawned and no SubTab is allocated.
  \<^item> When the session file has a projects array and the saved index is below the number
    of loaded projects, the load has spawned at least one terminal.
\<close>

theorem lazy_initialization:
  assumes t: "t = load_session (fresh_app file legacy sortc now)"
  shows "(\<forall>p P. project_mem t p = Some P \<longrightarrow> initialized P \<longrightarrow>
             active_project t = Some p \<and> length (spawned t) = length (subtabs P) \<and>
             dom (subtab_mem t) = set (subtabs P)) \<and>
         (\<forall>p P. project_mem t p = Some P \<longrightarrow> \<not> initialized P \<longrightarrow>
             subtabs P = [] \<and>
             spawned (on_project_selected (Some p) t) =
               spawned t @ (if saved_subtabs P = [] then [path P]
                            else map working_dir (saved_subtabs P)) \<and>
             spawned (on_add_subtab_clicked p t) = spawned t @ [path P]) \<and>
         ((\<forall>p P. project_mem t p = Some P \<longrightarrow> \<not> initialized P) \<longrightarrow>
             spawned t = [] \<and> subtab_mem t = Map.empty) \<and>
         (\<forall>root_obj. file = Parsed (Some (JObject root_obj)) \<longrightarrow>
             json_object_has_member root_obj ''projects'' \<longrightarrow>
             session_active_index root_obj < length (projects t) \<longrightarrow> spawned t \<noteq> [])"
proof -
  let ?f = "fresh_app file legacy sortc now"
  have d: "dormant ?f" by (rule dormant_fresh_app)
  have w: "well_formed ?f" by (rule well_formed_fresh_app)
  have wt: "well_formed t" unfolding t using w by (rule well_formed_load_session)
  then have ht: "heap_ok t" and lt: "lifecycle_ok t" by (simp_all add: well_formed_def)
  have sj: "session_json ?f = file" by (simp add: fresh_app_def)
  have second: "subtabs P = [] \<and>
             spawned (on_project_selected (Some p) t) =
               spawned t @ (if saved_subtabs P = [] then [path P]
                            else map working_dir (saved_subtabs P)) \<and>
             spawned (on_add_subtab_clicked p t) = spawned t @ [path P]"
    if P: "project_mem t p = Some P" and un: "\<not> initialized P" for p P
  proof -
    have "lifecycle P" using lt P by (rule lifecycle_okD)
    then have none: "subtabs P = []" using un by (simp add: lifecycle_def)
    have listed: "p \<in> set (projects t)"
      using heap_inv_listed [OF heap_okD [OF ht], of p] P by simp
    show ?thesis
      using none on_project_selected_dormant(2) [OF P listed un none]
            on_add_subtab_clicked_spawned [OF P un]
      by simp
  qed
  from d w show ?thesis
  proof (cases rule: load_session_lazy)
    case dormant
    then have dt: "dormant t" by (simp add: t)
    have no: "\<not> initialized P" if "project_mem t p = Some P" for p P
      using dt that by (auto simp: dormant_def)
    have quiet: "spawned t = []" "subtab_mem t = Map.empty"
      using dt by (simp_all add: dormant_def)
    show ?thesis
      using no quiet second dormant(2) by (simp add: t [symmetric] sj)
  next
    case (selected a A)
    have only: "p = a \<and> P = A" if "project_mem t p = Some P" "initialized P" for p P
      using that selected(2) selected(4) [of p P] by (cases "p = a") (simp_all add: t)
    have some: "\<not> (\<forall>p P. project_mem t p = Some P \<longrightarrow> \<not> initialized P)"
      using selected(2,3) by (auto simp: t)
    show ?thesis
    proof (intro conjI allI impI)
      fix p P assume "project_mem t p = Some P" "initialized P"
      then have "p = a \<and> P = A" by (rule only)
      then show "active_project t = Some p" "length (spawned t) = length (subtabs P)"
        "dom (subtab_mem t) = set (subtabs P)"
        using selected(1,5,6) by (simp_all add: t)
    next
      fix p P assume "project_mem t p = Some P" "\<not> initialized P"
      then show "subtabs P = []"
        "spawned (on_project_selected (Some p) t) =
               spawned t @ (if saved_subtabs P = [] then [path P]
                            else map working_dir (saved_subtabs P))"
        "spawned (on_add_subtab_clicked p t) = spawned t @ [path P]"
        using second by blast+
    next
      assume "\<forall>p P. project_mem t p = Some P \<longrightarrow> \<not> initialized P"
      then show "spawned t = []" "subtab_mem t = Map.empty" using some by blast+
    next
      show "spawned t \<noteq> []" using selected(7) by (simp add: t)
    qed
  qed
qed

lemma two_project_session_select_b:
  "(let t = load_session (fresh_app (Parsed (Some two_project_session)) None None 0)
    in map_option (\<lambda>P. (initialized P, saved_subtabs P)) (project_mem t 1) =
         Some (False, [\<lparr>saved_name = ''x'', working_dir = ''/x''\<rparr>]) \<and>
       spawned t = [''/a''])"
  by code_simp

theorem lazy_initialization_witness:
  "(let t = load_session (fresh_app (Parsed (Some two_project_session)) None None 0)
    in map_option initialized (project_mem t 1) = Some False \<and>
       spawned t = [''/a''] \<and>
       spawned (on_project_selected (Some 1) t) = [''/a'', ''/x''])"
proof -
  let ?t = "load_session (fresh_app (Parsed (Some two_project_session)) None None 0)"
  obtain P where P: "project_mem ?t 1 = Some P" and un: "\<not> initialized P"
    and sv: "saved_subtabs P = [\<lparr>saved_name = ''x'', working_dir = ''/x''\<rparr>]"
    and sp: "spawned ?t = [''/a'']"
    using two_project_session_select_b by (auto simp: Let_def)
  from lazy_initialization [OF refl, of "Parsed (Some two_project_session)" None None 0] P un
  have "spawned (on_project_selected (Some 1) ?t) =
          spawned ?t @ (if saved_subtabs P = [] then [path P]
                        else map working_dir (saved_subtabs P))"
    by blast
  then show ?thesis using P un sv sp by (simp add: Let_def)
qed

end
